theory Spec2Isabelle
  imports Main
begin

section \<open>Runes and the host library's character classes\<close>

text \<open>
  A Go \<^verbatim>\<open>rune\<close> is a code point; the lexers only compare runes and never do
  arithmetic on them. \<open>runes\<close> is the conversion \<^verbatim>\<open>[]rune("...")\<close> of an ASCII
  string constant.
\<close>

type_synonym rune = int

definition runes :: "string \<Rightarrow> rune list" where
  "runes s = map of_char s"

text \<open>
  The predicates \<^verbatim>\<open>unicode.IsSpace\<close>, \<^verbatim>\<open>unicode.IsLetter\<close> and
  \<^verbatim>\<open>unicode.IsNumber\<close> belong to Go's standard library, not to the repository.
  They are a parameter of every lexer definition.
\<close>

record Unicode =
  IsSpace :: "rune \<Rightarrow> bool"
  IsLetter :: "rune \<Rightarrow> bool"
  IsNumber :: "rune \<Rightarrow> bool"

text \<open>The three tables restricted to ASCII, for running the lexers on ASCII sources.\<close>

definition ascii_tables :: Unicode where
  "ascii_tables =
     \<lparr> IsSpace = (\<lambda>c. c \<in> {9, 10, 11, 12, 13, 32}),
       IsLetter = (\<lambda>c. (65 \<le> c \<and> c \<le> 90) \<or> (97 \<le> c \<and> c \<le> 122)),
       IsNumber = (\<lambda>c. 48 \<le> c \<and> c \<le> 57) \<rparr>"

section \<open>Results of Go functions\<close>

text \<open>
  A Go function either returns or panics. A function that can return an error returns
  a pair, or a sum with the error to the left.
\<close>

datatype 'a outcome = Returns 'a | Panics string

definition andThen :: "'a outcome \<Rightarrow> ('a \<Rightarrow> 'b outcome) \<Rightarrow> 'b outcome" where
  "andThen m f = (case m of Panics p \<Rightarrow> Panics p | Returns x \<Rightarrow> f x)"

lemma andThen_simps [simp]:
  "andThen (Returns x) f = f x"
  "andThen (Panics p) f = Panics p"
  by (simp_all add: andThen_def)

lemma andThen_cong [fundef_cong]:
  "m = m' \<Longrightarrow> (\<And>x. m' = Returns x \<Longrightarrow> f x = f' x) \<Longrightarrow> andThen m f = andThen m' f'"
  by (cases m') simp_all


text \<open>A method called on a \<^verbatim>\<open>nil\<close> interface value.\<close>

definition nilDeref :: "'a outcome" where
  "nilDeref = Panics ''invalid memory address or nil pointer dereference''"


section \<open>The scope-emitting lexer\<close>

text \<open>
  The second lexer of the repository (tokens \<^verbatim>\<open>eof\<close>, \<^verbatim>\<open>newscope\<close>,
  \<^verbatim>\<open>endscope\<close>, \<^verbatim>\<open>for\<close>, \<^verbatim>\<open>word\<close>). Its declarations share their Go names
  with the rich lexer's, so they carry the suffix \<open>_scope\<close> here.
  A token's \<^verbatim>\<open>Value\<close> is \<^verbatim>\<open>nil\<close> (\<open>None\<close>) or the text of a word.
\<close>

record Token_scope =
  Type_scope :: string
  Value_scope :: "rune list option"

definition TOKEN_EOF_scope :: string where "TOKEN_EOF_scope = ''eof''"
definition TOKEN_NEWSCOPE :: string where "TOKEN_NEWSCOPE = ''newscope''"
definition TOKEN_ENDSCOPE :: string where "TOKEN_ENDSCOPE = ''endscope''"
definition TOKEN_FOR_scope :: string where "TOKEN_FOR_scope = ''for''"
definition TOKEN_WORD_scope :: string where "TOKEN_WORD_scope = ''word''"

text \<open>
  The indent stack is a Go slice that grows at its end: the top is the last element.
  Indent widths are counters of skipped characters, hence natural numbers.
\<close>

record Lexer_scope =
  buf_scope :: "rune list"
  indentsStack_scope :: "nat list"
  queue :: "Token_scope list"

definition NewLexer_scope :: "rune list \<Rightarrow> Lexer_scope" where
  "NewLexer_scope b = \<lparr> buf_scope = b, indentsStack_scope = [], queue = [] \<rparr>"

text \<open>\<^verbatim>\<open>skip\<close> is only called on a non-empty buffer.\<close>

definition skip_scope :: "Lexer_scope \<Rightarrow> Lexer_scope" where
  "skip_scope l = l\<lparr> buf_scope := drop 1 (buf_scope l) \<rparr>"

definition isEnd_scope :: "Lexer_scope \<Rightarrow> bool" where
  "isEnd_scope l = (length (buf_scope l) = 0)"

text \<open>The loop of \<^verbatim>\<open>skipWhiteChars\<close>: the counter and the buffer that is left.\<close>

fun skipWhiteLoop :: "Unicode \<Rightarrow> rune list \<Rightarrow> nat \<times> rune list" where
  "skipWhiteLoop U [] = (0, [])"
| "skipWhiteLoop U (c # cs) =
     (if IsSpace U c \<and> c \<noteq> 10
      then (case skipWhiteLoop U cs of (counter, rest) \<Rightarrow> (Suc counter, rest))
      else (0, c # cs))"

definition skipWhiteChars_scope :: "Unicode \<Rightarrow> Lexer_scope \<Rightarrow> nat \<times> Lexer_scope" where
  "skipWhiteChars_scope U l =
     (case skipWhiteLoop U (buf_scope l) of
        (counter, rest) \<Rightarrow> (counter, l\<lparr> buf_scope := rest \<rparr>))"

text \<open>The loop of \<^verbatim>\<open>scanWord\<close>; the source tests \<^verbatim>\<open>IsLetter\<close> twice.\<close>

fun scanWordLoop_scope :: "Unicode \<Rightarrow> rune list \<Rightarrow> rune list \<times> rune list" where
  "scanWordLoop_scope U [] = ([], [])"
| "scanWordLoop_scope U (c # cs) =
     (if IsLetter U c \<or> IsLetter U c
      then (case scanWordLoop_scope U cs of (word, rest) \<Rightarrow> (c # word, rest))
      else ([], c # cs))"

definition scanWord_scope :: "Unicode \<Rightarrow> Lexer_scope \<Rightarrow> rune list \<times> Lexer_scope" where
  "scanWord_scope U l =
     (case scanWordLoop_scope U (buf_scope l) of
        (word, rest) \<Rightarrow> (word, l\<lparr> buf_scope := rest \<rparr>))"

text \<open>\<^verbatim>\<open>emitFromQueue\<close> is only called on a non-empty queue.\<close>

definition emitFromQueue :: "Lexer_scope \<Rightarrow> Token_scope \<times> Lexer_scope" where
  "emitFromQueue l = (hd (queue l), l\<lparr> queue := drop 1 (queue l) \<rparr>)"

definition endscope :: Token_scope where
  "endscope = \<lparr> Type_scope = TOKEN_ENDSCOPE, Value_scope = None \<rparr>"

text \<open>
  The dedent loop of \<^verbatim>\<open>Next\<close>: while the stack is non-empty and its top exceeds
  \<open>indent\<close>, queue one \<^verbatim>\<open>endscope\<close> and pop.
\<close>

function popIndents :: "nat \<Rightarrow> Lexer_scope \<Rightarrow> Lexer_scope" where
  "popIndents indent l =
     (if length (indentsStack_scope l) > 0 \<and> last (indentsStack_scope l) > indent
      then popIndents indent
             (l\<lparr> queue := queue l @ [endscope],
                 indentsStack_scope := butlast (indentsStack_scope l) \<rparr>)
      else l)"
  by pat_completeness auto
termination
  by (relation "measure (\<lambda>(indent, l). length (indentsStack_scope l))") auto

declare popIndents.simps [simp del]

lemma skipWhiteLoop_length:
  "skipWhiteLoop U b = (n, r) \<Longrightarrow> length r + n = length b"
  by (induction b arbitrary: n r) (auto split: if_splits prod.splits)

lemma skipWhiteChars_scope_length:
  "skipWhiteChars_scope U l = (n, l') \<Longrightarrow> length (buf_scope l') \<le> length (buf_scope l)"
  by (auto simp: skipWhiteChars_scope_def split: prod.splits dest: skipWhiteLoop_length)

lemma skipWhiteChars_scope_queue:
  "skipWhiteChars_scope U l = (n, l') \<Longrightarrow>
     queue l' = queue l \<and> indentsStack_scope l' = indentsStack_scope l"
  by (auto simp: skipWhiteChars_scope_def split: prod.splits)

lemma popIndents_buf: "buf_scope (popIndents indent l) = buf_scope l"
  by (induction indent l rule: popIndents.induct) (subst popIndents.simps, simp)

text \<open>
  \<^verbatim>\<open>Next\<close> returns a token or an error (\<open>Inl\<close>), and the lexer as it has become.
  The order of the cases is the source's: pending queue, end of input, newline,
  other whitespace, letter, anything else.
\<close>

function Next_scope :: "Unicode \<Rightarrow> Lexer_scope \<Rightarrow> (string + Token_scope) \<times> Lexer_scope" where
  "Next_scope U l =
     (if length (queue l) > 0 then
        (case emitFromQueue l of (t, l') \<Rightarrow> (Inr t, l'))
      else if isEnd_scope l then
        (let l1 = l\<lparr> queue := queue l @ replicate (length (indentsStack_scope l)) endscope \<rparr>;
             l2 = l1\<lparr> indentsStack_scope := [] \<rparr>
         in if length (queue l2) = 0
            then (Inr \<lparr> Type_scope = TOKEN_EOF_scope, Value_scope = None \<rparr>, l2)
            else Next_scope U l2)
      else
        (let ch = hd (buf_scope l) in
         if ch = 10 then
           (case skipWhiteChars_scope U (skip_scope l) of (indent, l2) \<Rightarrow>
              if isEnd_scope l2 then Next_scope U l2
              else if hd (buf_scope l2) = 10 then Next_scope U l2
              else if length (indentsStack_scope l2) = 0
                      \<or> indent > last (indentsStack_scope l2) then
                (Inr \<lparr> Type_scope = TOKEN_NEWSCOPE, Value_scope = None \<rparr>,
                 l2\<lparr> indentsStack_scope := indentsStack_scope l2 @ [indent] \<rparr>)
              else
                (let l3 = popIndents indent l2 in
                 if length (indentsStack_scope l3) > 0
                    \<and> last (indentsStack_scope l3) \<noteq> indent
                 then (Inl ''Bad indent'', l3)
                 else Next_scope U l3))
         else if IsSpace U ch then
           (case skipWhiteChars_scope U l of (n, l1) \<Rightarrow> Next_scope U l1)
         else if IsLetter U ch then
           (case scanWord_scope U l of (word, l1) \<Rightarrow>
              if word = runes ''for''
              then (Inr \<lparr> Type_scope = TOKEN_FOR_scope, Value_scope = None \<rparr>, l1)
              else (Inr \<lparr> Type_scope = TOKEN_WORD_scope, Value_scope = Some word \<rparr>, l1))
         else (Inl ''Don't know what to do'', l)))"
  by pat_completeness auto
termination
proof (relation "measure (\<lambda>(U, l). 2 * length (buf_scope l) + (if queue l = [] then 1 else 0))",
       goal_cases)
  case 1
  show ?case by simp
next
  case (2 U l l1 l2)
  then show ?case by (simp add: isEnd_scope_def)
next
  case (3 U l ch indent l2)
  then show ?case
    using skipWhiteChars_scope_length [of U "skip_scope l" indent l2]
          skipWhiteChars_scope_queue [of U "skip_scope l" indent l2]
    by (cases "buf_scope l") (auto simp: isEnd_scope_def skip_scope_def)
next
  case (4 U l ch indent l2)
  then show ?case
    using skipWhiteChars_scope_length [of U "skip_scope l" indent l2]
          skipWhiteChars_scope_queue [of U "skip_scope l" indent l2]
    by (cases "buf_scope l") (auto simp: isEnd_scope_def skip_scope_def)
next
  case (5 U l ch indent l2 l3)
  then show ?case
    using skipWhiteChars_scope_length [of U "skip_scope l" indent l2]
          skipWhiteChars_scope_queue [of U "skip_scope l" indent l2]
          popIndents_buf [of indent l2]
    by (cases "buf_scope l") (auto simp: isEnd_scope_def skip_scope_def)
next
  case (6 U l ch n l1)
  then show ?case
    using skipWhiteChars_scope_queue [of U l n l1]
    by (cases "buf_scope l")
       (auto simp: isEnd_scope_def skipWhiteChars_scope_def split: prod.splits if_splits
             dest: skipWhiteLoop_length)
qed

declare Next_scope.simps [simp del]


text \<open>
  The token stream of a source: \<^verbatim>\<open>Next\<close> is called until it returns the end-of-input
  token or an error, as the repository's test driver does. The stream is the list of
  tokens returned, with the error that stopped it, if any. The first argument bounds
  the number of calls; \<open>None\<close> means the bound was too small.
\<close>

fun tokens_scope ::
  "Unicode \<Rightarrow> nat \<Rightarrow> Lexer_scope \<Rightarrow> (Token_scope list \<times> string option) option" where
  "tokens_scope U 0 l = None"
| "tokens_scope U (Suc n) l =
     (case Next_scope U l of
        (Inl err, l') \<Rightarrow> Some ([], Some err)
      | (Inr t, l') \<Rightarrow>
          if Type_scope t = TOKEN_EOF_scope then Some ([t], None)
          else (case tokens_scope U n l' of
                  None \<Rightarrow> None
                | Some (ts, e) \<Rightarrow> Some (t # ts, e)))"

text \<open>A bound on the calls of \<^verbatim>\<open>Next\<close> still to come.\<close>

definition lexer_weight :: "Lexer_scope \<Rightarrow> nat" where
  "lexer_weight l =
     2 * length (buf_scope l) + length (indentsStack_scope l) + length (queue l)"


subsection \<open>Properties of the scope-emitting lexer\<close>

text \<open>The number of \<^verbatim>\<open>endscope\<close> tokens of a list minus that of \<^verbatim>\<open>newscope\<close> tokens.\<close>

definition scope_balance :: "Token_scope list \<Rightarrow> int" where
  "scope_balance ts =
     int (length (filter (\<lambda>t. Type_scope t = TOKEN_ENDSCOPE) ts))
     - int (length (filter (\<lambda>t. Type_scope t = TOKEN_NEWSCOPE) ts))"

lemma scope_token_names [simp]:
  "TOKEN_NEWSCOPE \<noteq> TOKEN_ENDSCOPE" "TOKEN_ENDSCOPE \<noteq> TOKEN_NEWSCOPE"
  "TOKEN_EOF_scope \<noteq> TOKEN_ENDSCOPE" "TOKEN_EOF_scope \<noteq> TOKEN_NEWSCOPE"
  "TOKEN_FOR_scope \<noteq> TOKEN_ENDSCOPE" "TOKEN_FOR_scope \<noteq> TOKEN_NEWSCOPE"
  "TOKEN_WORD_scope \<noteq> TOKEN_ENDSCOPE" "TOKEN_WORD_scope \<noteq> TOKEN_NEWSCOPE"
  "TOKEN_FOR_scope \<noteq> TOKEN_EOF_scope" "TOKEN_WORD_scope \<noteq> TOKEN_EOF_scope"
  "TOKEN_NEWSCOPE \<noteq> TOKEN_EOF_scope" "TOKEN_ENDSCOPE \<noteq> TOKEN_EOF_scope"
  "Type_scope endscope = TOKEN_ENDSCOPE"
  by (simp_all add: TOKEN_NEWSCOPE_def TOKEN_ENDSCOPE_def TOKEN_EOF_scope_def
        TOKEN_FOR_scope_def TOKEN_WORD_scope_def endscope_def)

lemma scope_balance_simps [simp]:
  "scope_balance [] = 0"
  "scope_balance (xs @ ys) = scope_balance xs + scope_balance ys"
  "scope_balance (t # ts) =
     (if Type_scope t = TOKEN_ENDSCOPE then 1 else 0)
     - (if Type_scope t = TOKEN_NEWSCOPE then 1 else 0) + scope_balance ts"
  by (simp_all add: scope_balance_def)


lemma scope_balance_replicate [simp]: "scope_balance (replicate n endscope) = int n"
  by (induction n) (simp_all)

lemma popIndents_stack:
  "indentsStack_scope (popIndents i l) =
     rev (dropWhile (\<lambda>w. i < w) (rev (indentsStack_scope l)))"
proof (induction i l rule: popIndents.induct)
  case (1 indent l)
  show ?case
  proof (cases "length (indentsStack_scope l) > 0 \<and> last (indentsStack_scope l) > indent")
    case True
    then obtain ys y where s: "indentsStack_scope l = ys @ [y]"
      by (cases "indentsStack_scope l" rule: rev_cases) auto
    with True 1 show ?thesis
      by (subst popIndents.simps) (simp)
  next
    case False
    then show ?thesis
      by (subst popIndents.simps) (cases "indentsStack_scope l" rule: rev_cases, auto)
  qed
qed

lemma popIndents_balance:
  "scope_balance (queue (popIndents i l)) + int (length (indentsStack_scope (popIndents i l)))
     = scope_balance (queue l) + int (length (indentsStack_scope l))"
proof (induction i l rule: popIndents.induct)
  case (1 indent l)
  show ?case
  proof (cases "length (indentsStack_scope l) > 0 \<and> last (indentsStack_scope l) > indent")
    case True
    with 1 show ?thesis
      by (subst (1 2) popIndents.simps) (auto simp: )
  next
    case False
    then show ?thesis
      by (subst (1 2) popIndents.simps) auto
  qed
qed

lemma popIndents_queue_endscope:
  "\<forall>t \<in> set (queue l). t = endscope \<Longrightarrow> \<forall>t \<in> set (queue (popIndents i l)). t = endscope"
proof (induction i l rule: popIndents.induct)
  case (1 indent l)
  show ?case
  proof (cases "length (indentsStack_scope l) > 0 \<and> last (indentsStack_scope l) > indent")
    case True
    with 1 show ?thesis
      by (subst popIndents.simps) (auto simp: )
  next
    case False
    with 1 show ?thesis
      by (subst popIndents.simps) auto
  qed
qed


text \<open>
  Rule induction over the calls of \<^verbatim>\<open>Next\<close>: one case for each way the source
  returns or calls itself again.
\<close>

lemma Next_scope_induct [consumes 1, case_names emit eof drain blank newscope bad dedent space word other]:
  assumes run: "Next_scope U l = (r, l')"
    and emit: "\<And>l q qs. queue l = q # qs \<Longrightarrow> P l (Inr q) (l\<lparr> queue := qs \<rparr>)"
    and eof: "\<And>l. queue l = [] \<Longrightarrow> buf_scope l = [] \<Longrightarrow> indentsStack_scope l = [] \<Longrightarrow>
             P l (Inr \<lparr> Type_scope = TOKEN_EOF_scope, Value_scope = None \<rparr>) l"
    and drain: "\<And>l l2 r l'. queue l = [] \<Longrightarrow> buf_scope l = [] \<Longrightarrow>
             indentsStack_scope l \<noteq> [] \<Longrightarrow>
             l2 = l\<lparr> queue := replicate (length (indentsStack_scope l)) endscope,
                        indentsStack_scope := [] \<rparr> \<Longrightarrow>
             Next_scope U l2 = (r, l') \<Longrightarrow> P l2 r l' \<Longrightarrow> P l r l'"
    and blank: "\<And>l indent l2 r l'. queue l = [] \<Longrightarrow> buf_scope l \<noteq> [] \<Longrightarrow>
             hd (buf_scope l) = 10 \<Longrightarrow>
             skipWhiteChars_scope U (skip_scope l) = (indent, l2) \<Longrightarrow>
             buf_scope l2 = [] \<or> hd (buf_scope l2) = 10 \<Longrightarrow>
             Next_scope U l2 = (r, l') \<Longrightarrow> P l2 r l' \<Longrightarrow> P l r l'"
    and newscope: "\<And>l indent l2. queue l = [] \<Longrightarrow> buf_scope l \<noteq> [] \<Longrightarrow>
             hd (buf_scope l) = 10 \<Longrightarrow>
             skipWhiteChars_scope U (skip_scope l) = (indent, l2) \<Longrightarrow>
             buf_scope l2 \<noteq> [] \<Longrightarrow> hd (buf_scope l2) \<noteq> 10 \<Longrightarrow>
             indentsStack_scope l2 = [] \<or> indent > last (indentsStack_scope l2) \<Longrightarrow>
             P l (Inr \<lparr> Type_scope = TOKEN_NEWSCOPE, Value_scope = None \<rparr>)
                 (l2\<lparr> indentsStack_scope := indentsStack_scope l2 @ [indent] \<rparr>)"
    and bad: "\<And>l indent l2 l3. queue l = [] \<Longrightarrow> buf_scope l \<noteq> [] \<Longrightarrow>
             hd (buf_scope l) = 10 \<Longrightarrow>
             skipWhiteChars_scope U (skip_scope l) = (indent, l2) \<Longrightarrow>
             buf_scope l2 \<noteq> [] \<Longrightarrow> hd (buf_scope l2) \<noteq> 10 \<Longrightarrow>
             indentsStack_scope l2 \<noteq> [] \<Longrightarrow> indent \<le> last (indentsStack_scope l2) \<Longrightarrow>
             l3 = popIndents indent l2 \<Longrightarrow>
             indentsStack_scope l3 \<noteq> [] \<Longrightarrow> last (indentsStack_scope l3) \<noteq> indent \<Longrightarrow>
             P l (Inl ''Bad indent'') l3"
    and dedent: "\<And>l indent l2 l3 r l'. queue l = [] \<Longrightarrow> buf_scope l \<noteq> [] \<Longrightarrow>
             hd (buf_scope l) = 10 \<Longrightarrow>
             skipWhiteChars_scope U (skip_scope l) = (indent, l2) \<Longrightarrow>
             buf_scope l2 \<noteq> [] \<Longrightarrow> hd (buf_scope l2) \<noteq> 10 \<Longrightarrow>
             indentsStack_scope l2 \<noteq> [] \<Longrightarrow> indent \<le> last (indentsStack_scope l2) \<Longrightarrow>
             l3 = popIndents indent l2 \<Longrightarrow>
             indentsStack_scope l3 = [] \<or> last (indentsStack_scope l3) = indent \<Longrightarrow>
             Next_scope U l3 = (r, l') \<Longrightarrow> P l3 r l' \<Longrightarrow> P l r l'"
    and space: "\<And>l n l1 r l'. queue l = [] \<Longrightarrow> buf_scope l \<noteq> [] \<Longrightarrow>
             hd (buf_scope l) \<noteq> 10 \<Longrightarrow> IsSpace U (hd (buf_scope l)) \<Longrightarrow>
             skipWhiteChars_scope U l = (n, l1) \<Longrightarrow>
             Next_scope U l1 = (r, l') \<Longrightarrow> P l1 r l' \<Longrightarrow> P l r l'"
    and word: "\<And>l w l1. queue l = [] \<Longrightarrow> buf_scope l \<noteq> [] \<Longrightarrow>
             hd (buf_scope l) \<noteq> 10 \<Longrightarrow> \<not> IsSpace U (hd (buf_scope l)) \<Longrightarrow>
             IsLetter U (hd (buf_scope l)) \<Longrightarrow> scanWord_scope U l = (w, l1) \<Longrightarrow>
             P l (Inr (if w = runes ''for''
                       then \<lparr> Type_scope = TOKEN_FOR_scope, Value_scope = None \<rparr>
                       else \<lparr> Type_scope = TOKEN_WORD_scope, Value_scope = Some w \<rparr>)) l1"
    and other: "\<And>l. queue l = [] \<Longrightarrow> buf_scope l \<noteq> [] \<Longrightarrow>
             hd (buf_scope l) \<noteq> 10 \<Longrightarrow> \<not> IsSpace U (hd (buf_scope l)) \<Longrightarrow>
             \<not> IsLetter U (hd (buf_scope l)) \<Longrightarrow> P l (Inl ''Don't know what to do'') l"
  shows "P l r l'"
proof -
  have "V = U \<Longrightarrow> Next_scope V l = (r, l') \<Longrightarrow> P l r l'" for V
proof (induction V l arbitrary: r l' rule: Next_scope.induct)
  case (1 V l)
  have V: "V = U" by fact
  note step = "1.prems"(2) [unfolded V, unfolded Next_scope.simps [of U l]]
  show ?case
  proof (cases "queue l")
    case (Cons q qs)
    with step have "r = Inr q" "l' = l\<lparr> queue := qs \<rparr>"
      by (auto simp: emitFromQueue_def)
    with Cons show ?thesis using emit [OF Cons] by simp
  next
    case Nil
    show ?thesis
    proof (cases "buf_scope l")
      case bNil: Nil
      define l2 where "l2 = l\<lparr> queue := queue l @ replicate (length (indentsStack_scope l)) endscope \<rparr>
                                \<lparr> indentsStack_scope := [] \<rparr>"
      have l2_eq: "l2 = l\<lparr> queue := replicate (length (indentsStack_scope l)) endscope,
                             indentsStack_scope := [] \<rparr>"
        using Nil by (simp add: l2_def)
      show ?thesis
      proof (cases "indentsStack_scope l")
        case sNil: Nil
        with step Nil bNil
        have "r = Inr \<lparr> Type_scope = TOKEN_EOF_scope, Value_scope = None \<rparr>" "l' = l"
          by (auto simp: isEnd_scope_def Let_def)
        then show ?thesis using eof [OF Nil bNil sNil] by simp
      next
        case (Cons a as)
        with step Nil bNil have run2: "Next_scope U l2 = (r, l')"
          by (auto simp: isEnd_scope_def Let_def l2_def)
        have "P l2 r l'"
          by (rule "1.IH"(1) [unfolded V, OF _ _ refl refl _ refl run2 [unfolded l2_def], folded l2_def])
             (use Nil bNil Cons in \<open>auto simp: isEnd_scope_def l2_def\<close>)
        then show ?thesis
          using drain [OF Nil bNil _ l2_eq run2] Cons by simp
      qed
    next
      case bCons: (Cons c cs)
      have notEnd: "\<not> isEnd_scope l" "\<not> 0 < length (queue l)" "buf_scope l \<noteq> []"
        using bCons Nil by (simp_all add: isEnd_scope_def)
      show ?thesis
      proof (cases "c = 10")
        case True
        then have hd10: "hd (buf_scope l) = 10" using bCons by simp
        obtain indent l2 where sk: "skipWhiteChars_scope U (skip_scope l) = (indent, l2)"
          by (cases "skipWhiteChars_scope U (skip_scope l)")
        show ?thesis
        proof (cases "buf_scope l2 = [] \<or> hd (buf_scope l2) = 10")
          case blankline: True
          with step notEnd hd10 sk have run2: "Next_scope U l2 = (r, l')"
            by (auto simp: isEnd_scope_def Let_def split: if_splits)
          have "P l2 r l'"
          proof (cases "isEnd_scope l2")
            case True
            show ?thesis
              by (rule "1.IH"(2) [unfolded V, OF notEnd(2) notEnd(1) refl hd10 sk [symmetric] True refl run2])
          next
            case False
            with blankline have h: "hd (buf_scope l2) = 10" by (simp add: isEnd_scope_def)
            show ?thesis
              by (rule "1.IH"(3) [unfolded V, OF notEnd(2) notEnd(1) refl hd10 sk [symmetric] False h refl run2])
          qed
          then show ?thesis
            using blank [OF Nil notEnd(3) hd10 sk blankline run2] by simp
        next
          case line: False
          then have l2ne: "buf_scope l2 \<noteq> []" "hd (buf_scope l2) \<noteq> 10" "\<not> isEnd_scope l2"
            by (simp_all add: isEnd_scope_def)
          show ?thesis
          proof (cases "indentsStack_scope l2 = [] \<or> indent > last (indentsStack_scope l2)")
            case push: True
            with step notEnd hd10 sk l2ne
            have "r = Inr \<lparr> Type_scope = TOKEN_NEWSCOPE, Value_scope = None \<rparr>"
                 "l' = l2\<lparr> indentsStack_scope := indentsStack_scope l2 @ [indent] \<rparr>"
              by (auto simp: Let_def isEnd_scope_def split: if_splits)
            then show ?thesis
              using newscope [OF Nil notEnd(3) hd10 sk l2ne(1,2) push] by simp
          next
            case nopush: False
            then have st: "indentsStack_scope l2 \<noteq> []" "indent \<le> last (indentsStack_scope l2)"
              by auto
            define l3 where "l3 = popIndents indent l2"
            show ?thesis
            proof (cases "indentsStack_scope l3 \<noteq> [] \<and> last (indentsStack_scope l3) \<noteq> indent")
              case True
              with step notEnd hd10 sk l2ne nopush
              have "r = Inl ''Bad indent''" "l' = l3"
                by (auto simp: Let_def l3_def isEnd_scope_def split: if_splits)
              then show ?thesis
                using bad [OF Nil notEnd(3) hd10 sk l2ne(1,2) st l3_def] True by simp
            next
              case False
              with step notEnd hd10 sk l2ne nopush
              have run3: "Next_scope U l3 = (r, l')"
                by (auto simp: Let_def l3_def isEnd_scope_def split: if_splits)
              have c1: "\<not> (length (indentsStack_scope l2) = 0 \<or> last (indentsStack_scope l2) < indent)"
                using nopush by simp
              have c2: "\<not> (0 < length (indentsStack_scope l3) \<and> last (indentsStack_scope l3) \<noteq> indent)"
                using False by simp
              have "P l3 r l'"
                by (rule "1.IH"(4) [unfolded V, OF notEnd(2) notEnd(1) refl hd10 sk [symmetric]
                                      l2ne(3) l2ne(2) c1 l3_def c2 refl run3])
              then show ?thesis
                using dedent [OF Nil notEnd(3) hd10 sk l2ne(1,2) st l3_def _ run3] False by blast
            qed
          qed
        qed
      next
        case False
        then have hdn: "hd (buf_scope l) \<noteq> 10" using bCons by simp
        show ?thesis
        proof (cases "IsSpace U (hd (buf_scope l))")
          case True
          obtain n l1 where sk: "skipWhiteChars_scope U l = (n, l1)"
            by (cases "skipWhiteChars_scope U l")
          with step notEnd hdn True have run1: "Next_scope U l1 = (r, l')"
            by (auto simp: Let_def isEnd_scope_def split: if_splits)
          have "P l1 r l'"
            by (rule "1.IH"(5) [unfolded V, OF notEnd(2) notEnd(1) refl hdn True sk [symmetric] refl run1])
          then show ?thesis
            using space [OF Nil notEnd(3) hdn True sk run1] by simp
        next
          case nospace: False
          show ?thesis
          proof (cases "IsLetter U (hd (buf_scope l))")
            case True
            obtain w l1 where sw: "scanWord_scope U l = (w, l1)"
              by (cases "scanWord_scope U l")
            with step notEnd hdn nospace True
            have "r = Inr (if w = runes ''for''
                       then \<lparr> Type_scope = TOKEN_FOR_scope, Value_scope = None \<rparr>
                       else \<lparr> Type_scope = TOKEN_WORD_scope, Value_scope = Some w \<rparr>)" "l' = l1"
              by (auto simp: Let_def isEnd_scope_def split: if_splits)
            then show ?thesis
              using word [OF Nil notEnd(3) hdn nospace True sw] by simp
          next
            case False
            with step notEnd hdn nospace
            have "r = Inl ''Don't know what to do''" "l' = l"
              by (auto simp: Let_def isEnd_scope_def split: if_splits)
            then show ?thesis
              using other [OF Nil notEnd(3) hdn nospace False] by simp
          qed
        qed
      qed
    qed
  qed
qed
  then show ?thesis using run by simp
qed

lemma skip_scope_fields [simp]:
  "queue (skip_scope l) = queue l"
  "indentsStack_scope (skip_scope l) = indentsStack_scope l"
  by (simp_all add: skip_scope_def)

lemma scanWord_scope_fields:
  "scanWord_scope U l = (w, l1) \<Longrightarrow>
     queue l1 = queue l \<and> indentsStack_scope l1 = indentsStack_scope l"
  by (auto simp: scanWord_scope_def split: prod.splits)

lemma Next_scope_balance:
  "Next_scope U l = (r, l') \<Longrightarrow> r = Inr t \<Longrightarrow>
     scope_balance [t] + scope_balance (queue l') + int (length (indentsStack_scope l'))
       = scope_balance (queue l) + int (length (indentsStack_scope l))"
proof (induction rule: Next_scope_induct)
  case (emit l q qs)
  then show ?case by simp
next
  case (eof l)
  then show ?case by auto
next
  case (drain l l2 r l')
  then show ?case by simp
next
  case (blank l indent l2 r l')
  then show ?case using skipWhiteChars_scope_queue [of U "skip_scope l" indent l2] by simp
next
  case (newscope l indent l2)
  then show ?case using skipWhiteChars_scope_queue [of U "skip_scope l" indent l2] by auto
next
  case (bad l indent l2 l3)
  then show ?case by simp
next
  case (dedent l indent l2 l3 r l')
  then show ?case
    using popIndents_balance [of indent l2] skipWhiteChars_scope_queue [of U "skip_scope l" indent l2]
    by simp
next
  case (space l n l1 r l')
  then show ?case using skipWhiteChars_scope_queue [of U l n l1] by simp
next
  case (word l w l1)
  then show ?case using scanWord_scope_fields [of U l w l1]
    by (cases "w = runes ''for''") auto
next
  case (other l)
  then show ?case by simp
qed

lemma Next_scope_queue_endscope:
  "Next_scope U l = (r, l') \<Longrightarrow> \<forall>q \<in> set (queue l). q = endscope \<Longrightarrow>
     \<forall>q \<in> set (queue l'). q = endscope"
proof (induction rule: Next_scope_induct)
  case (emit l q qs)
  then show ?case by simp
next
  case (eof l)
  then show ?case by simp
next
  case (drain l l2 r l')
  then show ?case by simp
next
  case (blank l indent l2 r l')
  then show ?case using skipWhiteChars_scope_queue [of U "skip_scope l" indent l2] by simp
next
  case (newscope l indent l2)
  then show ?case using skipWhiteChars_scope_queue [of U "skip_scope l" indent l2] by simp
next
  case (bad l indent l2 l3)
  then show ?case
    using popIndents_queue_endscope [of l2 indent] skipWhiteChars_scope_queue [of U "skip_scope l" indent l2]
    by simp
next
  case (dedent l indent l2 l3 r l')
  then show ?case
    using popIndents_queue_endscope [of l2 indent] skipWhiteChars_scope_queue [of U "skip_scope l" indent l2]
    by simp
next
  case (space l n l1 r l')
  then show ?case using skipWhiteChars_scope_queue [of U l n l1] by simp
next
  case (word l w l1)
  then show ?case using scanWord_scope_fields [of U l w l1] by simp
next
  case (other l)
  then show ?case by simp
qed

lemma Next_scope_eof:
  "Next_scope U l = (r, l') \<Longrightarrow> \<forall>q \<in> set (queue l). q = endscope \<Longrightarrow>
     r = Inr t \<Longrightarrow> Type_scope t = TOKEN_EOF_scope \<Longrightarrow>
     queue l' = [] \<and> indentsStack_scope l' = []"
proof (induction rule: Next_scope_induct)
  case (emit l q qs)
  then show ?case by auto
next
  case (eof l)
  then show ?case by simp
next
  case (drain l l2 r l')
  then show ?case by simp
next
  case (blank l indent l2 r l')
  then show ?case using skipWhiteChars_scope_queue [of U "skip_scope l" indent l2] by simp
next
  case (newscope l indent l2)
  then show ?case by auto
next
  case (bad l indent l2 l3)
  then show ?case by simp
next
  case (dedent l indent l2 l3 r l')
  then show ?case
    using popIndents_queue_endscope [of l2 indent] skipWhiteChars_scope_queue [of U "skip_scope l" indent l2]
    by simp
next
  case (space l n l1 r l')
  then show ?case using skipWhiteChars_scope_queue [of U l n l1] by simp
next
  case (word l w l1)
  then show ?case by (auto split: if_splits)
next
  case (other l)
  then show ?case by simp
qed

lemma tokens_scope_balance:
  "tokens_scope U n l = Some (ts, None) \<Longrightarrow> \<forall>q \<in> set (queue l). q = endscope \<Longrightarrow>
     scope_balance ts = scope_balance (queue l) + int (length (indentsStack_scope l))"
proof (induction n arbitrary: l ts)
  case 0
  then show ?case by simp
next
  case (Suc n)
  obtain r l' where step: "Next_scope U l = (r, l')" by (cases "Next_scope U l")
  from Suc.prems(1) step obtain t where r: "r = Inr t"
    by (cases r) auto
  note bal = Next_scope_balance [OF step r]
  note inv = Next_scope_queue_endscope [OF step Suc.prems(2)]
  show ?case
  proof (cases "Type_scope t = TOKEN_EOF_scope")
    case True
    with Suc.prems(1) step r have ts: "ts = [t]" by simp
    from Next_scope_eof [OF step Suc.prems(2) r True] bal ts show ?thesis by simp
  next
    case False
    with Suc.prems(1) step r obtain ts' where
      rest: "tokens_scope U n l' = Some (ts', None)" and ts: "ts = t # ts'"
      by (auto split: option.splits)
    from Suc.IH [OF rest inv] bal ts show ?thesis by simp
  qed
qed

text \<open>
  Claim C4. For every source on which the scope-emitting lexer reaches the end-of-input
  token without an error, the token stream holds as many \<^verbatim>\<open>newscope\<close> tokens as
  \<^verbatim>\<open>endscope\<close> tokens. The proof rests on \<open>Next_scope_balance\<close>: every push
  returns one \<^verbatim>\<open>newscope\<close>, every pop and every stack entry left at the end of
  input queues one \<^verbatim>\<open>endscope\<close>, and the end-of-input token is only returned
  once queue and stack are empty (\<open>Next_scope_eof\<close>).
\<close>

theorem scope_tokens_balanced:
  assumes "tokens_scope U n (NewLexer_scope input) = Some (ts, None)"
  shows "length (filter (\<lambda>t. Type_scope t = TOKEN_NEWSCOPE) ts)
           = length (filter (\<lambda>t. Type_scope t = TOKEN_ENDSCOPE) ts)"
  using tokens_scope_balance [OF assms]
  by (simp add: NewLexer_scope_def scope_balance_def)

theorem scope_tokens_balanced_witness:
  "tokens_scope ascii_tables 10 (NewLexer_scope (runes [CHR 0x0A, CHR '' '', CHR '' '', CHR ''f'', CHR ''o'', CHR ''r'']))
     = Some ([\<lparr> Type_scope = TOKEN_NEWSCOPE, Value_scope = None \<rparr>,
              \<lparr> Type_scope = TOKEN_FOR_scope, Value_scope = None \<rparr>,
              \<lparr> Type_scope = TOKEN_ENDSCOPE, Value_scope = None \<rparr>,
              \<lparr> Type_scope = TOKEN_EOF_scope, Value_scope = None \<rparr>], None)
   \<and> length (filter (\<lambda>t. Type_scope t = TOKEN_NEWSCOPE)
            [\<lparr> Type_scope = TOKEN_NEWSCOPE, Value_scope = None \<rparr>,
              \<lparr> Type_scope = TOKEN_FOR_scope, Value_scope = None \<rparr>,
              \<lparr> Type_scope = TOKEN_ENDSCOPE, Value_scope = None \<rparr>,
              \<lparr> Type_scope = TOKEN_EOF_scope, Value_scope = None \<rparr>])
     = length (filter (\<lambda>t. Type_scope t = TOKEN_ENDSCOPE)
            [\<lparr> Type_scope = TOKEN_NEWSCOPE, Value_scope = None \<rparr>,
              \<lparr> Type_scope = TOKEN_FOR_scope, Value_scope = None \<rparr>,
              \<lparr> Type_scope = TOKEN_ENDSCOPE, Value_scope = None \<rparr>,
              \<lparr> Type_scope = TOKEN_EOF_scope, Value_scope = None \<rparr>])"
proof -
  have run: "tokens_scope ascii_tables 10 (NewLexer_scope (runes [CHR 0x0A, CHR '' '', CHR '' '', CHR ''f'', CHR ''o'', CHR ''r'']))
     = Some ([\<lparr> Type_scope = TOKEN_NEWSCOPE, Value_scope = None \<rparr>,
              \<lparr> Type_scope = TOKEN_FOR_scope, Value_scope = None \<rparr>,
              \<lparr> Type_scope = TOKEN_ENDSCOPE, Value_scope = None \<rparr>,
              \<lparr> Type_scope = TOKEN_EOF_scope, Value_scope = None \<rparr>], None)"
    by code_simp
  from scope_tokens_balanced [OF run] run show ?thesis by simp
qed

lemma skipWhiteLoop_line:
  "\<forall>w \<in> set ws. IsSpace U w \<and> w \<noteq> 10 \<Longrightarrow> \<not> (IsSpace U c \<and> c \<noteq> 10) \<Longrightarrow>
     skipWhiteLoop U (ws @ c # rest) = (length ws, c # rest)"
  by (induction ws) auto

text \<open>
  Claim C5. \<^verbatim>\<open>Next\<close> reads a newline, then the whitespace \<open>ws\<close> of a line whose
  first other character is \<open>c\<close>. If the line dedents (its width is below the top
  of the indent stack) and, once every entry above the width is popped, the stack that
  remains is non-empty with a top other than the width, \<^verbatim>\<open>Next\<close> fails with
  \<^verbatim>\<open>Bad indent\<close>.
\<close>

theorem Next_scope_bad_indent:
  assumes "queue l = []"
    and "buf_scope l = 10 # ws @ c # rest"
    and "\<forall>w \<in> set ws. IsSpace U w \<and> w \<noteq> 10"
    and "c \<noteq> 10" and "\<not> IsSpace U c"
    and "indentsStack_scope l \<noteq> []"
    and "length ws < last (indentsStack_scope l)"
    and "remaining = rev (dropWhile (\<lambda>w. length ws < w) (rev (indentsStack_scope l)))"
    and "remaining \<noteq> []" and "last remaining \<noteq> length ws"
  shows "fst (Next_scope U l) = Inl ''Bad indent''"
proof -
  have sk: "skipWhiteChars_scope U (skip_scope l) = (length ws, l\<lparr> buf_scope := c # rest \<rparr>)"
    using assms(2,3,4,5) skipWhiteLoop_line [of ws U c rest]
    by (simp add: skipWhiteChars_scope_def skip_scope_def)
  have st: "indentsStack_scope (popIndents (length ws) (l\<lparr> buf_scope := c # rest \<rparr>)) = remaining"
    using assms(8) by (simp add: popIndents_stack)
  show ?thesis
    using assms(1,2,4,6,7,9,10) sk st
    by (subst Next_scope.simps) (simp add: isEnd_scope_def Let_def)
qed

theorem Next_scope_bad_indent_witness:
  "fst (Next_scope ascii_tables
          \<lparr> buf_scope = runes [CHR 0x0A, CHR '' '', CHR '' '', CHR '' '', CHR ''c''],
            indentsStack_scope = [2, 4], queue = [] \<rparr>) = Inl ''Bad indent''"
  by (rule Next_scope_bad_indent [where ws = "runes ''   ''" and c = "of_char CHR ''c''"
         and rest = "[]" and remaining = "[2]"])
     (simp_all add: runes_def ascii_tables_def)

lemma skipWhiteChars_scope_weight:
  "skipWhiteChars_scope U l = (n, l') \<Longrightarrow> lexer_weight l' \<le> lexer_weight l"
  by (auto simp: skipWhiteChars_scope_def lexer_weight_def split: prod.splits
           dest: skipWhiteLoop_length)

lemma skip_scope_weight:
  "buf_scope l \<noteq> [] \<Longrightarrow> lexer_weight (skip_scope l) + 2 = lexer_weight l"
  by (cases "buf_scope l") (auto simp: skip_scope_def lexer_weight_def)

lemma popIndents_weight: "lexer_weight (popIndents i l) = lexer_weight l"
proof (induction i l rule: popIndents.induct)
  case (1 indent l)
  show ?case
  proof (cases "length (indentsStack_scope l) > 0 \<and> last (indentsStack_scope l) > indent")
    case True
    with 1 show ?thesis
      by (subst popIndents.simps) (auto simp: lexer_weight_def)
  next
    case False
    then show ?thesis
      by (subst popIndents.simps) auto
  qed
qed

lemma scanWordLoop_scope_length:
  "scanWordLoop_scope U b = (w, r) \<Longrightarrow> length r + length w = length b"
  by (induction b arbitrary: w r) (auto split: if_splits prod.splits)

lemma scanWord_scope_weight:
  "scanWord_scope U l = (w, l1) \<Longrightarrow> buf_scope l \<noteq> [] \<Longrightarrow> IsLetter U (hd (buf_scope l)) \<Longrightarrow>
     lexer_weight l1 < lexer_weight l"
  by (cases "buf_scope l")
     (auto simp: scanWord_scope_def lexer_weight_def split: prod.splits
           dest: scanWordLoop_scope_length)

lemma Next_scope_weight:
  "Next_scope U l = (r, l') \<Longrightarrow> r = Inr t \<Longrightarrow> Type_scope t \<noteq> TOKEN_EOF_scope \<Longrightarrow>
     lexer_weight l' < lexer_weight l"
proof (induction rule: Next_scope_induct)
  case (emit l q qs)
  then show ?case by (simp add: lexer_weight_def)
next
  case (eof l)
  then show ?case by auto
next
  case (drain l l2 r l')
  then show ?case by (simp add: lexer_weight_def)
next
  case (blank l indent l2 r l')
  then show ?case
    using skipWhiteChars_scope_weight [of U "skip_scope l" indent l2] skip_scope_weight [of l]
    by simp
next
  case (newscope l indent l2)
  then show ?case
    using skipWhiteChars_scope_weight [of U "skip_scope l" indent l2] skip_scope_weight [of l]
    by (simp add: lexer_weight_def)
next
  case (bad l indent l2 l3)
  then show ?case by simp
next
  case (dedent l indent l2 l3 r l')
  then show ?case
    using skipWhiteChars_scope_weight [of U "skip_scope l" indent l2] skip_scope_weight [of l]
      popIndents_weight [of indent l2]
    by simp
next
  case (space l n l1 r l')
  then show ?case using skipWhiteChars_scope_weight [of U l n l1] by simp
next
  case (word l w l1)
  then show ?case using scanWord_scope_weight [of U l w l1] by simp
next
  case (other l)
  then show ?case by simp
qed

text \<open>The token stream is always produced: a bound above the weight suffices.\<close>

lemma tokens_scope_total:
  "lexer_weight l < n \<Longrightarrow> \<exists>ts e. tokens_scope U n l = Some (ts, e)"
proof (induction n arbitrary: l)
  case 0
  then show ?case by simp
next
  case (Suc n)
  obtain r l' where step: "Next_scope U l = (r, l')" by (cases "Next_scope U l")
  show ?case
  proof (cases r)
    case (Inl err)
    with step show ?thesis by simp
  next
    case (Inr t)
    show ?thesis
    proof (cases "Type_scope t = TOKEN_EOF_scope")
      case True
      with step Inr show ?thesis by simp
    next
      case False
      from Next_scope_weight [OF step Inr False] Suc.prems have "lexer_weight l' < n" by simp
      from Suc.IH [OF this] obtain ts e where "tokens_scope U n l' = Some (ts, e)" by blast
      with step Inr False show ?thesis by simp
    qed
  qed
qed


section \<open>The rich lexer\<close>

text \<open>
  The lexer of \<^verbatim>\<open>lexer.go\<close>. Its token kinds are the constants of \<^verbatim>\<open>lexer.go\<close>, in
  their order, up to \<^verbatim>\<open>TOKEN_OR\<close>. The negotiator names four further kinds of literal
  tokens (\<^verbatim>\<open>TOKEN_INT\<close>, \<^verbatim>\<open>TOKEN_FLOAT\<close>, \<^verbatim>\<open>TOKEN_IMAG\<close>, \<^verbatim>\<open>TOKEN_RUNE\<close>) that
  \<^verbatim>\<open>lexer.go\<close> does not declare; they close the list and no lexer function produces them.
\<close>

datatype TokenType =
    TOKEN_EOF | TOKEN_INDENT | TOKEN_FOR | TOKEN_WORD | TOKEN_ASSIGN | TOKEN_EQUALS
  | TOKEN_NEQUALS | TOKEN_GT | TOKEN_LT | TOKEN_EQ_LT | TOKEN_EQ_GT | TOKEN_NEGATE
  | TOKEN_NUM | TOKEN_STR | TOKEN_DOT | TOKEN_LPARENTH | TOKEN_RPARENTH | TOKEN_LBRACKET
  | TOKEN_RBRACKET | TOKEN_LBRACE | TOKEN_RBRACE | TOKEN_PLUS | TOKEN_PLUS_ASSIGN
  | TOKEN_INCREMENT | TOKEN_MINUS | TOKEN_MINUS_ASSIGN | TOKEN_DECREMENT | TOKEN_VAR
  | TOKEN_IF | TOKEN_ELSE | TOKEN_ELIF | TOKEN_SWITCH | TOKEN_CASE | TOKEN_RETURN
  | TOKEN_TRUE | TOKEN_FALSE | TOKEN_STRUCT | TOKEN_MAP | TOKEN_FUNC | TOKEN_TYPE
  | TOKEN_IN | TOKEN_PASS | TOKEN_PACKAGE | TOKEN_BREAK | TOKEN_CONTINUE
  | TOKEN_FALLTHROUGH | TOKEN_GOTO | TOKEN_INTERFACE | TOKEN_NIL | TOKEN_MUL | TOKEN_DIV
  | TOKEN_MUL_ASSIGN | TOKEN_DIV_ASSIGN | TOKEN_SHL | TOKEN_SHR | TOKEN_SEND | TOKEN_COMMA
  | TOKEN_COLON | TOKEN_SEMICOLON | TOKEN_AMP | TOKEN_PIPE | TOKEN_PERCENT | TOKEN_AND
  | TOKEN_OR
  | TOKEN_INT | TOKEN_FLOAT | TOKEN_IMAG | TOKEN_RUNE

text \<open>
  A token's \<^verbatim>\<open>Value\<close> is \<^verbatim>\<open>nil\<close> (\<open>None\<close>) or a string. The strings stored are
  conversions of rune slices or ASCII constants, so they are kept as rune lists; comparing
  \<^verbatim>\<open>string(runes)\<close> with an ASCII constant is comparing the runes with the constant's.
\<close>

record Token =
  Type :: TokenType
  Offset :: int
  Value :: "rune list option"

text \<open>
  Numbers are scanned by Go's \<^verbatim>\<open>go/scanner\<close>, which is not part of the repository. The
  scanner is a parameter: from the buffer it gives the token, its literal and the error that
  the error handler recorded, if any. Errors are \<^verbatim>\<open>fmt.Errorf\<close> values: a format and its
  arguments.
\<close>

datatype GoToken = GoINT | GoFLOAT | GoIMAG | GoOther string

datatype LexArg = ArgRune rune | ArgGoToken GoToken | ArgText string

datatype LexError = LexErrorf string "LexArg list"

type_synonym GoScanner = "rune list \<Rightarrow> GoToken \<times> rune list \<times> LexError option"

text \<open>
  \<^verbatim>\<open>buf\<close> is a Go slice: the elements up to its length, and the cells of its backing
  array between its length and its capacity (\<open>spare\<close>). \<^verbatim>\<open>buf[n:]\<close> panics when \<open>n\<close>
  exceeds the length; \<^verbatim>\<open>buf[:n]\<close> panics only when \<open>n\<close> exceeds the capacity, and reads
  spare cells when \<open>n\<close> exceeds the length.
\<close>

record Lexer =
  buf :: "rune list"
  spare :: "rune list"
  indentsStack :: "int list"
  tokenIndent :: "Token option"
  skipped :: int
  curTokenPos :: int

definition NewLexer :: "rune list \<Rightarrow> rune list \<Rightarrow> Lexer" where
  "NewLexer b sp =
     \<lparr> buf = b, spare = sp, indentsStack = [], tokenIndent = None, skipped = 0, curTokenPos = 0 \<rparr>"

text \<open>\<^verbatim>\<open>skipBy\<close> and \<^verbatim>\<open>skip\<close> reslice the buffer from \<open>n\<close> (from 1).\<close>

definition skipBy :: "nat \<Rightarrow> Lexer \<Rightarrow> Lexer outcome" where
  "skipBy n l =
     (if n > length (buf l) then Panics ''slice bounds out of range''
      else Returns (l\<lparr> skipped := skipped l + int n, buf := drop n (buf l) \<rparr>))"

definition skip :: "Lexer \<Rightarrow> Lexer outcome" where
  "skip l =
     (if 1 > length (buf l) then Panics ''slice bounds out of range''
      else Returns (l\<lparr> skipped := skipped l + 1, buf := drop 1 (buf l) \<rparr>))"

text \<open>
  The loops of \<^verbatim>\<open>skipWhiteChars\<close> and \<^verbatim>\<open>scanWord\<close> advance an index \<open>i\<close> over the
  buffer; \<open>whiteRun\<close> and \<open>wordRun\<close> are the index at which they stop.
\<close>

fun whiteRun :: "Unicode \<Rightarrow> rune list \<Rightarrow> nat" where
  "whiteRun U [] = 0"
| "whiteRun U (c # cs) = (if IsSpace U c \<and> c \<noteq> 10 then Suc (whiteRun U cs) else 0)"

definition skipWhiteChars :: "Unicode \<Rightarrow> Lexer \<Rightarrow> (rune list \<times> Lexer) outcome" where
  "skipWhiteChars U l =
     (let i = whiteRun U (buf l);
          whitespace = take i (buf l)
      in andThen (skipBy i l) (\<lambda>l'. Returns (whitespace, l')))"

fun wordRun :: "Unicode \<Rightarrow> rune list \<Rightarrow> nat" where
  "wordRun U [] = 0"
| "wordRun U (c # cs) = (if IsLetter U c \<or> IsNumber U c then Suc (wordRun U cs) else 0)"

definition scanWord :: "Unicode \<Rightarrow> Lexer \<Rightarrow> (rune list \<times> Lexer) outcome" where
  "scanWord U l =
     (let i = wordRun U (buf l);
          result = take i (buf l)
      in andThen (skipBy i l) (\<lambda>l'. Returns (result, l')))"

lemma whiteRun_le [simp]: "whiteRun U b \<le> length b"
  by (induction b) auto

lemma wordRun_le [simp]: "wordRun U b \<le> length b"
  by (induction b) auto

definition isEnd :: "Lexer \<Rightarrow> bool" where
  "isEnd l = (length (buf l) = 0)"

text \<open>
  \<^verbatim>\<open>checkAlt\<close> tries the alternatives in order. Each test slices the buffer up to the
  length of the alternative, whatever the length of the buffer.
\<close>

fun checkAlt :: "string list \<Rightarrow> Lexer \<Rightarrow> ((rune list \<times> bool) \<times> Lexer) outcome" where
  "checkAlt [] l = Returns (([], False), l)"
| "checkAlt (alt # alts) l =
     (if length alt > length (buf l) + length (spare l) then Panics ''slice bounds out of range''
      else if take (length alt) (buf l @ spare l) = runes alt
      then andThen (skipBy (length alt) l) (\<lambda>l'. Returns ((runes alt, True), l'))
      else checkAlt alts l)"

text \<open>
  The loop of \<^verbatim>\<open>loadEscapedString\<close>, after the opening quote is skipped: the index of
  the closing quote, or the error. A backslash (\<open>0x5C\<close>) skips the next character; \<open>0x22\<close>
  is the double quote.
\<close>

fun findQuote :: "rune list \<Rightarrow> nat \<Rightarrow> LexError + nat" where
  "findQuote [] i = Inl (LexErrorf ''Unterminated string literal'' [])"
| "findQuote (c # cs) i =
     (if c = 0x5C then
        (case cs of
           [] \<Rightarrow> Inl (LexErrorf ''Unexpected file end - middle of a string literal'' [])
         | d # ds \<Rightarrow> findQuote ds (i + 2))
      else if c = 0x22 then Inr i
      else findQuote cs (i + 1))"

definition loadEscapedString :: "Lexer \<Rightarrow> ((LexError + rune list) \<times> Lexer) outcome" where
  "loadEscapedString l =
     (if length (buf l) = 0 \<or> hd (buf l) \<noteq> 0x22
      then Returns (Inl (LexErrorf ''String literal has to start with a double quote'' []), l)
      else andThen (skip l) (\<lambda>l1.
             case findQuote (buf l1) 0 of
               Inl err \<Rightarrow> Returns (Inl err, l1)
             | Inr i \<Rightarrow> andThen (skipBy (i + 1) l1) (\<lambda>l2. Returns (Inr (take i (buf l1)), l2))))"

definition newToken :: "Lexer \<Rightarrow> TokenType \<Rightarrow> rune list option \<Rightarrow> Token" where
  "newToken l t val = \<lparr> Type = t, Offset = curTokenPos l, Value = val \<rparr>"

definition retNewToken ::
  "Lexer \<Rightarrow> TokenType \<Rightarrow> rune list option \<Rightarrow> ((LexError + Token) \<times> Lexer) outcome" where
  "retNewToken l t val = Returns (Inr (newToken l t val), l)"

definition scanGoToken ::
  "GoScanner \<Rightarrow> Lexer \<Rightarrow> ((GoToken \<times> rune list \<times> LexError option) \<times> Lexer) outcome" where
  "scanGoToken G l =
     (case G (buf l) of (tok, lit, err) \<Rightarrow>
        andThen (skipBy (length lit) l) (\<lambda>l'. Returns ((tok, lit, err), l')))"

definition fromGoToken ::
  "Lexer \<Rightarrow> GoToken \<Rightarrow> rune list \<Rightarrow> ((LexError + Token) \<times> Lexer) outcome" where
  "fromGoToken l tok lit =
     (if tok = GoINT \<or> tok = GoFLOAT \<or> tok = GoIMAG
      then retNewToken l TOKEN_NUM (Some lit)
      else Returns (Inl (LexErrorf ''Unexpected Go token: %s'' [ArgGoToken tok]), l))"

text \<open>The last statement of \<^verbatim>\<open>Next\<close>, reached by every case that does not return.\<close>

definition dontKnow :: "rune \<Rightarrow> Lexer \<Rightarrow> ((LexError + Token) \<times> Lexer) outcome" where
  "dontKnow ch l = Returns (Inl (LexErrorf (''Don't know what to do, '%c'' @ [CHR 0x27]) [ArgRune ch]), l)"

text \<open>A character constant of the source, as a rune.\<close>

definition rune :: "char \<Rightarrow> rune" where
  "rune c = of_char c"

text \<open>
  \<^verbatim>\<open>Next\<close>, with the cases of its switch in the order of the source. A case whose inner
  switch on \<^verbatim>\<open>alt\<close> matches nothing leaves the outer switch and reaches the last
  statement.
\<close>

function Next :: "Unicode \<Rightarrow> GoScanner \<Rightarrow> Lexer \<Rightarrow> ((LexError + Token) \<times> Lexer) outcome" where
  "Next U G l0 =
     (let l = l0\<lparr> curTokenPos := skipped l0 \<rparr> in
      if (isEnd l \<or> hd (buf l) \<noteq> rune CHR 0x0A) \<and> tokenIndent l \<noteq> None then
        (case tokenIndent l of Some t \<Rightarrow> Returns (Inr t, l\<lparr> tokenIndent := None \<rparr>))
      else if isEnd l then retNewToken l TOKEN_EOF None
      else
        (let ch = hd (buf l) in
         if ch = rune CHR 0x0A then
           andThen (skip l) (\<lambda>l1.
           andThen (skipWhiteChars U l1) (\<lambda>(indent, l2).
             Next U G (l2\<lparr> tokenIndent := Some (newToken l2 TOKEN_INDENT (Some indent)) \<rparr>)))
         else if IsSpace U ch then
           andThen (skipWhiteChars U l) (\<lambda>(whitespace, l1). Next U G l1)
         else if IsLetter U ch then
           andThen (scanWord U l) (\<lambda>(s, l1).
             if s = runes ''for'' then retNewToken l1 TOKEN_FOR None
             else if s = runes ''pass'' then retNewToken l1 TOKEN_PASS None
             else if s = runes ''package'' then retNewToken l1 TOKEN_PACKAGE None
             else if s = runes ''var'' then retNewToken l1 TOKEN_VAR None
             else if s = runes ''if'' then retNewToken l1 TOKEN_IF None
             else if s = runes ''else'' then retNewToken l1 TOKEN_ELSE None
             else if s = runes ''elif'' then retNewToken l1 TOKEN_ELIF None
             else if s = runes ''switch'' then retNewToken l1 TOKEN_SWITCH None
             else if s = runes ''case'' then retNewToken l1 TOKEN_CASE None
             else if s = runes ''return'' \<or> s = runes ''ret'' then retNewToken l1 TOKEN_RETURN None
             else if s = runes ''true'' then retNewToken l1 TOKEN_TRUE None
             else if s = runes ''false'' then retNewToken l1 TOKEN_FALSE None
             else if s = runes ''struct'' then retNewToken l1 TOKEN_STRUCT None
             else if s = runes ''interface'' then retNewToken l1 TOKEN_INTERFACE None
             else if s = runes ''map'' then retNewToken l1 TOKEN_MAP None
             else if s = runes ''func'' then retNewToken l1 TOKEN_FUNC None
             else if s = runes ''type'' then retNewToken l1 TOKEN_TYPE None
             else if s = runes ''break'' then retNewToken l1 TOKEN_BREAK None
             else if s = runes ''continue'' then retNewToken l1 TOKEN_CONTINUE None
             else if s = runes ''fallthrough'' then retNewToken l1 TOKEN_FALLTHROUGH None
             else if s = runes ''goto'' then retNewToken l1 TOKEN_GOTO None
             else if s = runes ''nil'' then retNewToken l1 TOKEN_NIL None
             else retNewToken l1 TOKEN_WORD (Some s))
         else if ch = rune CHR ''='' then
           andThen (checkAlt [''=='', ''=''] l) (\<lambda>((alt, ok), l1).
             if alt = runes ''='' then retNewToken l1 TOKEN_ASSIGN (Some alt)
             else if alt = runes ''=='' then retNewToken l1 TOKEN_EQUALS (Some alt)
             else dontKnow ch l1)
         else if ch = rune CHR ''!'' then
           andThen (checkAlt [''!='', ''!''] l) (\<lambda>((alt, ok), l1).
             if alt = runes ''!='' then retNewToken l1 TOKEN_NEQUALS (Some alt)
             else if alt = runes ''!'' then retNewToken l1 TOKEN_NEGATE (Some alt)
             else dontKnow ch l1)
         else if ch = rune CHR ''+'' then
           andThen (checkAlt [''++'', ''+='', ''+''] l) (\<lambda>((alt, ok), l1).
             if alt = runes ''+'' then retNewToken l1 TOKEN_PLUS (Some alt)
             else if alt = runes ''+='' then retNewToken l1 TOKEN_PLUS_ASSIGN (Some alt)
             else if alt = runes ''++'' then retNewToken l1 TOKEN_INCREMENT (Some alt)
             else dontKnow ch l1)
         else if ch = rune CHR ''-'' then
           andThen (checkAlt [''--'', ''-='', ''-''] l) (\<lambda>((alt, ok), l1).
             if alt = runes ''-'' then retNewToken l1 TOKEN_MINUS (Some alt)
             else if alt = runes ''-='' then retNewToken l1 TOKEN_MINUS_ASSIGN (Some alt)
             else if alt = runes ''--'' then retNewToken l1 TOKEN_DECREMENT (Some alt)
             else dontKnow ch l1)
         else if ch = rune CHR ''<'' then
           andThen (checkAlt [''<<'', ''<-'', ''<='', ''<''] l) (\<lambda>((alt, ok), l1).
             if alt = runes ''<'' then retNewToken l1 TOKEN_LT (Some alt)
             else if alt = runes ''<-'' then retNewToken l1 TOKEN_SEND (Some alt)
             else if alt = runes ''<<'' then retNewToken l1 TOKEN_SHL (Some alt)
             else if alt = runes ''<='' then retNewToken l1 TOKEN_EQ_LT (Some alt)
             else dontKnow ch l1)
         else if ch = rune CHR ''>'' then
           andThen (checkAlt [''>>'', ''>='', ''>''] l) (\<lambda>((alt, ok), l1).
             if alt = runes ''>'' then retNewToken l1 TOKEN_GT (Some alt)
             else if alt = runes ''>>'' then retNewToken l1 TOKEN_SHR (Some alt)
             else if alt = runes ''>='' then retNewToken l1 TOKEN_EQ_GT (Some alt)
             else dontKnow ch l1)
         else if IsNumber U ch then
           andThen (scanGoToken G l) (\<lambda>((gotok, lit, err), l1).
             case err of
               Some e \<Rightarrow> Returns (Inl e, l1)
             | None \<Rightarrow> fromGoToken l1 gotok lit)
         else if ch = rune CHR 0x22 then
           andThen (loadEscapedString l) (\<lambda>(r, l1).
             case r of
               Inl err \<Rightarrow> Returns (Inl err, l1)
             | Inr str \<Rightarrow> retNewToken l1 TOKEN_STR (Some str))
         else if ch = rune CHR ''('' then andThen (skip l) (\<lambda>l1. retNewToken l1 TOKEN_LPARENTH None)
         else if ch = rune CHR '')'' then andThen (skip l) (\<lambda>l1. retNewToken l1 TOKEN_RPARENTH None)
         else if ch = rune CHR ''['' then andThen (skip l) (\<lambda>l1. retNewToken l1 TOKEN_LBRACKET None)
         else if ch = rune CHR '']'' then andThen (skip l) (\<lambda>l1. retNewToken l1 TOKEN_RBRACKET None)
         else if ch = rune CHR ''{'' then andThen (skip l) (\<lambda>l1. retNewToken l1 TOKEN_LBRACE None)
         else if ch = rune CHR ''}'' then andThen (skip l) (\<lambda>l1. retNewToken l1 TOKEN_RBRACE None)
         else if ch = rune CHR ''.'' then andThen (skip l) (\<lambda>l1. retNewToken l1 TOKEN_DOT None)
         else if ch = rune CHR ''*'' then
           andThen (checkAlt [''*='', ''*''] l) (\<lambda>((alt, ok), l1).
             if alt = runes ''*'' then retNewToken l1 TOKEN_MUL (Some alt)
             else if alt = runes ''*='' then retNewToken l1 TOKEN_MUL_ASSIGN (Some alt)
             else dontKnow ch l1)
         else if ch = rune CHR ''/'' then
           andThen (checkAlt [''/='', ''/''] l) (\<lambda>((alt, ok), l1).
             if alt = runes ''/'' then retNewToken l1 TOKEN_DIV (Some alt)
             else if alt = runes ''/='' then retNewToken l1 TOKEN_DIV_ASSIGN (Some alt)
             else dontKnow ch l1)
         else if ch = rune CHR '','' then andThen (skip l) (\<lambda>l1. retNewToken l1 TOKEN_COMMA None)
         else if ch = rune CHR '';'' then andThen (skip l) (\<lambda>l1. retNewToken l1 TOKEN_SEMICOLON None)
         else if ch = rune CHR '':'' then andThen (skip l) (\<lambda>l1. retNewToken l1 TOKEN_COLON None)
         else if ch = rune CHR ''%'' then
           andThen (skip l) (\<lambda>l1. retNewToken l1 TOKEN_PERCENT (Some (runes ''%'')))
         else if ch = rune CHR ''&'' then
           andThen (checkAlt [''&&'', ''&''] l) (\<lambda>((alt, ok), l1).
             if alt = runes ''&&'' then retNewToken l1 TOKEN_AND (Some alt)
             else if alt = runes ''&'' then retNewToken l1 TOKEN_AMP (Some alt)
             else dontKnow ch l1)
         else if ch = rune CHR ''|'' then
           andThen (checkAlt [''||'', ''|''] l) (\<lambda>((alt, ok), l1).
             if alt = runes ''||'' then retNewToken l1 TOKEN_OR (Some alt)
             else if alt = runes ''|'' then retNewToken l1 TOKEN_PIPE (Some alt)
             else dontKnow ch l1)
         else dontKnow ch l))"
  by pat_completeness auto
termination
proof (relation "measure (\<lambda>(U, G, l). length (buf l))", goal_cases)
  case 1
  show ?case by simp
next
  case (2 U G l0 l ch l1 p indent l2)
  then show ?case
    by (auto simp: skip_def skipWhiteChars_def skipBy_def isEnd_def Let_def split: if_splits)
next
  case (3 U G l0 l ch p whitespace l1)
  then show ?case
    by (cases "buf l0")
       (auto simp: skipWhiteChars_def skipBy_def isEnd_def Let_def rune_def split: if_splits)
qed

declare Next.simps [simp del]

subsection \<open>Properties of the rich lexer\<close>

text \<open>A scanner for sources without numbers, for running \<^verbatim>\<open>Next\<close> on examples.\<close>

definition no_scanner :: GoScanner where
  "no_scanner b = (GoOther ''ILLEGAL'', [], None)"

text \<open>
  The keywords as the specification lists them, each with its token kind.
\<close>

definition spec_keywords :: "(string \<times> TokenType) list" where
  "spec_keywords =
     [(''for'', TOKEN_FOR), (''if'', TOKEN_IF), (''else'', TOKEN_ELSE), (''elif'', TOKEN_ELIF),
      (''switch'', TOKEN_SWITCH), (''case'', TOKEN_CASE), (''return'', TOKEN_RETURN),
      (''true'', TOKEN_TRUE), (''false'', TOKEN_FALSE), (''struct'', TOKEN_STRUCT),
      (''interface'', TOKEN_INTERFACE), (''map'', TOKEN_MAP), (''func'', TOKEN_FUNC),
      (''type'', TOKEN_TYPE), (''var'', TOKEN_VAR), (''pass'', TOKEN_PASS),
      (''package'', TOKEN_PACKAGE), (''break'', TOKEN_BREAK), (''continue'', TOKEN_CONTINUE),
      (''fallthrough'', TOKEN_FALLTHROUGH), (''goto'', TOKEN_GOTO), (''nil'', TOKEN_NIL),
      (''in'', TOKEN_IN)]"

text \<open>
  Claim C3 says that \<^verbatim>\<open>Next\<close> returns a token or an error on every input and never
  panics, also when the buffer ends in the middle of an operator. It does panic there:
  \<^verbatim>\<open>checkAlt\<close> first tries a two-character alternative and slices the buffer up to 2. On
  a buffer of length and capacity 1 that holds \<^verbatim>\<open>=\<close> the slice expression is out of
  range. The same happens on the second call for the source \<^verbatim>\<open>a=\<close> in a slice of
  length and capacity 2.
\<close>

theorem Next_panics_mid_operator:
  "Next ascii_tables no_scanner (NewLexer (runes ''='') []) = Panics ''slice bounds out of range''
   \<and> Next ascii_tables no_scanner (NewLexer (runes ''a='') [])
       = Returns (Inr \<lparr> Type = TOKEN_WORD, Offset = 0, Value = Some (runes ''a'') \<rparr>,
                  \<lparr> buf = runes ''='', spare = [], indentsStack = [], tokenIndent = None,
                    skipped = 1, curTokenPos = 0 \<rparr>)
   \<and> Next ascii_tables no_scanner
         \<lparr> buf = runes ''='', spare = [], indentsStack = [], tokenIndent = None,
           skipped = 1, curTokenPos = 0 \<rparr>
       = Panics ''slice bounds out of range''"
  by code_simp

text \<open>
  Claim C9, as stated, fails: the run \<^verbatim>\<open>ret\<close> is not among the listed keywords, and
  \<^verbatim>\<open>Next\<close> returns the keyword token \<^verbatim>\<open>TOKEN_RETURN\<close> for it, not a \<^verbatim>\<open>WORD\<close>.
\<close>

theorem Next_ret_counterexample:
  "runes ''ret'' \<notin> set (map (runes \<circ> fst) spec_keywords)
   \<and> Next ascii_tables no_scanner (NewLexer (runes ''ret'') [])
       = Returns (Inr \<lparr> Type = TOKEN_RETURN, Offset = 0, Value = None \<rparr>,
                  \<lparr> buf = [], spare = [], indentsStack = [], tokenIndent = None,
                    skipped = 3, curTokenPos = 0 \<rparr>)"
  by code_simp

lemma wordRun_takeWhile:
  "wordRun U b = length (takeWhile (\<lambda>r. IsLetter U r \<or> IsNumber U r) b)"
  by (induction b) auto

lemma take_wordRun:
  "take (wordRun U b) b = takeWhile (\<lambda>r. IsLetter U r \<or> IsNumber U r) b"
  by (induction b) auto

lemma drop_wordRun:
  "drop (wordRun U b) b = dropWhile (\<lambda>r. IsLetter U r \<or> IsNumber U r) b"
  by (induction b) auto

lemma scanWord_run:
  "scanWord U l =
     Returns (takeWhile (\<lambda>r. IsLetter U r \<or> IsNumber U r) (buf l),
              l\<lparr> skipped := skipped l + int (length (takeWhile (\<lambda>r. IsLetter U r \<or> IsNumber U r) (buf l))),
                  buf := dropWhile (\<lambda>r. IsLetter U r \<or> IsNumber U r) (buf l) \<rparr>)"
  by (simp add: scanWord_def Let_def skipBy_def take_wordRun drop_wordRun)
     (simp add: wordRun_takeWhile length_takeWhile_le not_less)

text \<open>
  Claim C9, amended. With no indent token pending, let \<open>w\<close> be the maximal run of letters
  and numbers at the start of the buffer, the first a letter, and \<open>w\<close> not \<^verbatim>\<open>in\<close>. Then
  \<^verbatim>\<open>Next\<close> consumes the run and returns a keyword token without value when \<open>w\<close> is one
  of the listed keywords or \<^verbatim>\<open>ret\<close> (which gives \<^verbatim>\<open>TOKEN_RETURN\<close>), and otherwise a
  \<^verbatim>\<open>WORD\<close> token whose value is \<open>w\<close>.
\<close>

theorem Next_keywords:
  assumes "tokenIndent l = None" and "buf l = c # cs"
    and "IsLetter U c" and "\<not> IsSpace U c" and "c \<noteq> rune CHR 0x0A"
    and "w = takeWhile (\<lambda>r. IsLetter U r \<or> IsNumber U r) (buf l)"
    and "w \<noteq> runes ''in''"
  shows "Next U G l =
           Returns (Inr (case map_of (map (\<lambda>(k, t). (runes k, t))
                                       (spec_keywords @ [(''ret'', TOKEN_RETURN)])) w of
                           Some t \<Rightarrow> \<lparr> Type = t, Offset = skipped l, Value = None \<rparr>
                         | None \<Rightarrow> \<lparr> Type = TOKEN_WORD, Offset = skipped l, Value = Some w \<rparr>),
                    l\<lparr> curTokenPos := skipped l,
                        skipped := skipped l + int (length w),
                        buf := dropWhile (\<lambda>r. IsLetter U r \<or> IsNumber U r) (buf l) \<rparr>)"
proof -
  have sw: "scanWord U (l\<lparr> curTokenPos := skipped l \<rparr>) =
     Returns (w, l\<lparr> curTokenPos := skipped l, skipped := skipped l + int (length w),
                    buf := dropWhile (\<lambda>r. IsLetter U r \<or> IsNumber U r) (buf l) \<rparr>)"
    using assms(6) by (simp add: scanWord_run)
  show ?thesis
    using assms(1-5,7)
    apply (subst Next.simps)
    apply (simp add: Let_def isEnd_def sw retNewToken_def newToken_def spec_keywords_def
                     runes_def rune_def del: scanWord_run)
    done
qed

theorem Next_keywords_witness:
  "Next ascii_tables no_scanner (NewLexer (runes ''for x'') [])
     = Returns (Inr \<lparr> Type = TOKEN_FOR, Offset = 0, Value = None \<rparr>,
                \<lparr> buf = runes '' x'', spare = [], indentsStack = [], tokenIndent = None,
                  skipped = 3, curTokenPos = 0 \<rparr>)
   \<and> Next ascii_tables no_scanner (NewLexer (runes ''frog'') [])
     = Returns (Inr \<lparr> Type = TOKEN_WORD, Offset = 0, Value = Some (runes ''frog'') \<rparr>,
                \<lparr> buf = [], spare = [], indentsStack = [], tokenIndent = None,
                  skipped = 4, curTokenPos = 0 \<rparr>)"
  using Next_keywords [of "NewLexer (runes ''for x'') []" "rune CHR ''f''" "runes ''or x''"
                          ascii_tables "runes ''for''" no_scanner]
        Next_keywords [of "NewLexer (runes ''frog'') []" "rune CHR ''f''" "runes ''rog''"
                          ascii_tables "runes ''frog''" no_scanner]
  by (simp add: NewLexer_def runes_def rune_def ascii_tables_def spec_keywords_def)


section \<open>The type model\<close>

text \<open>
  Modelled from the spec: the declarations of the types (\<^verbatim>\<open>Type\<close> and its variants, their
  kinds, \<^verbatim>\<open>Known\<close>, the root of a named type) are in a file of the repository that
  is not among the sources. The specification gives the closed set of variants and what
  each carries. The primitive ids are those the negotiator names; \<open>SIMPLE_TYPE_OTHER\<close> is
  any further primitive. The name of the third channel direction is not in the sources.
\<close>

datatype SimpleTypeID =
    SIMPLE_TYPE_BOOL | SIMPLE_TYPE_INT | SIMPLE_TYPE_FLOAT64 | SIMPLE_TYPE_COMPLEX128
  | SIMPLE_TYPE_STRING | SIMPLE_TYPE_BYTE | SIMPLE_TYPE_RUNE | SIMPLE_TYPE_OTHER string

text \<open>
  Modelled from the spec: the direction of a channel is bidirectional, send or receive.
  The source names \<^verbatim>\<open>CHAN_DIR_SEND\<close> and \<^verbatim>\<open>CHAN_DIR_RECEIVE\<close>.
\<close>

datatype ChanDir = CHAN_DIR_BIDI | CHAN_DIR_SEND | CHAN_DIR_RECEIVE

text \<open>Modelled from the spec: the kinds of types, one for each variant.\<close>

datatype TypeKind =
    KIND_UNKNOWN | KIND_SIMPLE | KIND_POINTER | KIND_SLICE | KIND_ARRAY | KIND_MAP
  | KIND_CHAN | KIND_FUNC | KIND_STRUCT | KIND_INTERFACE | KIND_TUPLE | KIND_CUSTOM

text \<open>
  Modelled from the spec: a type is one of twelve variants. A method set is a Go map from
  names to function declarations; it is kept as an association list. Of a function
  declaration the negotiator reads the name, the type and the receiver discipline; of a
  type declaration the name, the aliased type and the methods declared on the name.
\<close>

datatype Type =
    UnknownType
  | SimpleType SimpleTypeID
  | PointerType Type
  | SliceType Type
  | ArrayType Type int
  | MapType Type Type
  | ChanType Type ChanDir
  | FuncType "Type list" "Type list"
  | StructType "(string \<times> Type) list" "(string \<times> FuncDecl) list"
  | IfaceType "(string \<times> FuncDecl) list"
  | TupleType "Type list"
  | CustomType TypeDecl
and FuncDecl = FuncDecl string Type bool
and TypeDecl = TypeDecl string Type "(string \<times> FuncDecl) list"

text \<open>Modelled from the spec: \<^verbatim>\<open>Kind()\<close>, the variant of a type.\<close>

fun Kind :: "Type \<Rightarrow> TypeKind" where
  "Kind UnknownType = KIND_UNKNOWN"
| "Kind (SimpleType i) = KIND_SIMPLE"
| "Kind (PointerType t) = KIND_POINTER"
| "Kind (SliceType t) = KIND_SLICE"
| "Kind (ArrayType t n) = KIND_ARRAY"
| "Kind (MapType k v) = KIND_MAP"
| "Kind (ChanType t d) = KIND_CHAN"
| "Kind (FuncType as rs) = KIND_FUNC"
| "Kind (StructType ms fs) = KIND_STRUCT"
| "Kind (IfaceType ms) = KIND_INTERFACE"
| "Kind (TupleType ts) = KIND_TUPLE"
| "Kind (CustomType d) = KIND_CUSTOM"


text \<open>
  Modelled from the spec: the fields of the two declarations. The field \<^verbatim>\<open>typ\<close> of a
  function declaration is \<open>ftyp\<close> here, \<open>typ\<close> being a keyword of Isabelle.
\<close>

fun name :: "FuncDecl \<Rightarrow> string" where "name (FuncDecl n t p) = n"
fun ftyp :: "FuncDecl \<Rightarrow> Type" where "ftyp (FuncDecl n t p) = t"
fun PtrReceiver :: "FuncDecl \<Rightarrow> bool" where "PtrReceiver (FuncDecl n t p) = p"

fun AliasedType :: "TypeDecl \<Rightarrow> Type" where "AliasedType (TypeDecl n t ms) = t"
fun Methods :: "TypeDecl \<Rightarrow> (string \<times> FuncDecl) list" where "Methods (TypeDecl n t ms) = ms"

text \<open>Modelled from the spec: \<^verbatim>\<open>Known()\<close> is true unless the type is \<^verbatim>\<open>UNKNOWN\<close>.\<close>

definition Known :: "Type \<Rightarrow> bool" where
  "Known t = (Kind t \<noteq> KIND_UNKNOWN)"

text \<open>
  Modelled from the spec: the method \<^verbatim>\<open>RootType\<close> of a named type is, recursively, the
  root of its aliased type.
\<close>

fun CustomType_RootType :: "TypeDecl \<Rightarrow> Type" where
  "CustomType_RootType (TypeDecl n (CustomType d) ms) = CustomType_RootType d"
| "CustomType_RootType (TypeDecl n t ms) = t"

text \<open>
  What else the negotiator takes from the missing file is a parameter: the canonical
  string of a type (\<^verbatim>\<open>String()\<close>), of which the functions below only use equality, so
  it may be of any type \<open>'c\<close>; and the predicates on numeric types that the literals
  consult.
\<close>

record 'c TypeModel =
  String :: "Type \<Rightarrow> 'c"
  IsTypeNumeric :: "Type \<Rightarrow> bool"
  IsTypeFloatKind :: "Type \<Rightarrow> bool"
  IsTypeComplexType :: "Type \<Rightarrow> bool"

section \<open>Assignability, comparability and ordering\<close>

text \<open>
  From here on the definitions follow the negotiator's source. A \<^verbatim>\<open>Type\<close> that may be
  \<^verbatim>\<open>nil\<close> is a \<open>Type option\<close>.
\<close>

definition nonilTyp :: "Type option \<Rightarrow> Type" where
  "nonilTyp t = (case t of None \<Rightarrow> UnknownType | Some ty \<Rightarrow> ty)"

definition RootType :: "Type \<Rightarrow> Type" where
  "RootType t = (case t of CustomType d \<Rightarrow> CustomType_RootType d | _ \<Rightarrow> t)"

definition UnderlyingType :: "Type \<Rightarrow> Type" where
  "UnderlyingType t = (case t of CustomType d \<Rightarrow> AliasedType d | _ \<Rightarrow> t)"

definition IsNamed :: "Type \<Rightarrow> bool" where
  "IsNamed t = (Kind t = KIND_CUSTOM \<or> Kind t = KIND_SIMPLE)"

definition IsUnnamed :: "Type \<Rightarrow> bool" where
  "IsUnnamed t = (\<not> IsNamed t)"

definition IsInterface :: "Type \<Rightarrow> bool" where
  "IsInterface t = (Kind (RootType t) = KIND_INTERFACE)"

text \<open>
  The two nested loops of \<^verbatim>\<open>Implements\<close>: \<open>methodFound\<close> is the inner loop, which looks
  for one method of the interface among the value's methods; \<open>methodsFound\<close> is the outer
  loop over the methods of the interface.
\<close>

fun methodFound :: "'c TypeModel \<Rightarrow> bool \<Rightarrow> FuncDecl \<Rightarrow> FuncDecl list \<Rightarrow> bool" where
  "methodFound M ptr imet [] = False"
| "methodFound M ptr imet (met # mets) =
     (if name met \<noteq> name imet then methodFound M ptr imet mets
      else if PtrReceiver met \<noteq> ptr then methodFound M ptr imet mets
      else if String M (ftyp met) \<noteq> String M (ftyp imet) then methodFound M ptr imet mets
      else True)"

fun methodsFound :: "'c TypeModel \<Rightarrow> bool \<Rightarrow> FuncDecl list \<Rightarrow> FuncDecl list \<Rightarrow> bool" where
  "methodsFound M ptr [] valueMethods = True"
| "methodsFound M ptr (imet # imets) valueMethods =
     (if \<not> methodFound M ptr imet valueMethods then False
      else methodsFound M ptr imets valueMethods)"

text \<open>
  \<^verbatim>\<open>Implements\<close> asserts that the root of \<^verbatim>\<open>iface\<close> is an interface type and panics
  otherwise. A pointer is unwrapped, and the value's methods are those declared on a
  named type, or those of an interface type, or none.
\<close>

definition Implements :: "'c TypeModel \<Rightarrow> Type \<Rightarrow> Type \<Rightarrow> bool outcome" where
  "Implements M iface value =
     (case RootType iface of
        IfaceType imethods \<Rightarrow>
          (let (value1, ptr) = (case value of PointerType to \<Rightarrow> (to, True) | _ \<Rightarrow> (value, False));
               valueMethods = (case value1 of
                                 CustomType d \<Rightarrow> Methods d
                               | IfaceType ms \<Rightarrow> ms
                               | _ \<Rightarrow> [])
           in Returns (methodsFound M ptr (map snd imethods) (map snd valueMethods)))
      | _ \<Rightarrow> Panics ''interface conversion: Type is not *IfaceType'')"

definition IsAssignable :: "'c TypeModel \<Rightarrow> Type \<Rightarrow> Type \<Rightarrow> bool outcome" where
  "IsAssignable M to what =
     (if IsInterface to then Implements M to what
      else if IsNamed to \<and> IsNamed what then Returns (String M to = String M what)
      else Returns (String M (UnderlyingType to) = String M (UnderlyingType what)))"

definition AreComparable :: "'c TypeModel \<Rightarrow> Type \<Rightarrow> Type \<Rightarrow> bool outcome" where
  "AreComparable M t1 t2 =
     (if Kind t1 = KIND_UNKNOWN \<or> Kind t2 = KIND_UNKNOWN then Returns False
      else case IsAssignable M t1 t2 of
             Panics p \<Rightarrow> Panics p
           | Returns a12 \<Rightarrow>
               if \<not> a12 then Returns False
               else (case IsAssignable M t2 t1 of
                       Panics p \<Rightarrow> Panics p
                     | Returns a21 \<Rightarrow> if \<not> a21 then Returns False else Returns True))"

text \<open>
  \<^verbatim>\<open>AreOrdered\<close>: the two kinds are both \<^verbatim>\<open>KIND_SIMPLE\<close> exactly when both types are
  \<open>SimpleType\<close>; every other pair of comparable types reaches \<^verbatim>\<open>panic("todo")\<close>.
\<close>

definition AreOrdered :: "'c TypeModel \<Rightarrow> Type \<Rightarrow> Type \<Rightarrow> bool outcome" where
  "AreOrdered M t1 t2 =
     (case AreComparable M t1 t2 of
        Panics p \<Rightarrow> Panics p
      | Returns c \<Rightarrow>
          if \<not> c then Returns False
          else (case (t1, t2) of
                  (SimpleType id1, SimpleType id2) \<Rightarrow>
                    if id1 \<noteq> id2 then Returns False
                    else if id1 = SIMPLE_TYPE_INT \<or> id1 = SIMPLE_TYPE_STRING then Returns True
                    else Returns False
                | _ \<Rightarrow> Panics ''todo''))"

text \<open>
  Modelled from the spec: a type model for running the negotiator on examples. Canonical
  strings are compared as the types themselves, and the numeric predicates follow their
  names.
\<close>

definition structural_types :: "Type TypeModel" where
  "structural_types =
     \<lparr> String = (\<lambda>t. t),
       IsTypeNumeric = (\<lambda>t. case RootType t of
                          SimpleType i \<Rightarrow> i \<in> {SIMPLE_TYPE_INT, SIMPLE_TYPE_FLOAT64,
                                            SIMPLE_TYPE_COMPLEX128, SIMPLE_TYPE_BYTE, SIMPLE_TYPE_RUNE}
                        | _ \<Rightarrow> False),
       IsTypeFloatKind = (\<lambda>t. RootType t = SimpleType SIMPLE_TYPE_FLOAT64),
       IsTypeComplexType = (\<lambda>t. RootType t = SimpleType SIMPLE_TYPE_COMPLEX128) \<rparr>"


section \<open>The negotiator\<close>

text \<open>
  An error of the negotiator is a \<^verbatim>\<open>fmt.Errorf\<close> value: the format and its arguments.
\<close>

datatype FmtArg = ArgType Type | ArgName string

datatype error = Errorf string "FmtArg list"

text \<open>
  The interface \<^verbatim>\<open>TypedExpr\<close>: the three methods of an expression of any kind, over
  the state \<open>'e\<close> of the expression. \<^verbatim>\<open>Type()\<close> reads the state and may return
  \<^verbatim>\<open>nil\<close>; \<^verbatim>\<open>ApplyType\<close> and \<^verbatim>\<open>GuessType\<close> may change the expression; each of them
  may panic.
\<close>

record 'e TypedExpr =
  Type_of :: "'e \<Rightarrow> Type option outcome"
  ApplyType :: "Type \<Rightarrow> 'e \<Rightarrow> (error option \<times> 'e) outcome"
  GuessType :: "'e \<Rightarrow> ((bool \<times> Type option) \<times> 'e) outcome"

fun firstKnown :: "Type option list \<Rightarrow> Type option outcome" where
  "firstKnown [] = Returns None"
| "firstKnown (None # ts) = nilDeref"
| "firstKnown (Some t # ts) = (if Known t then Returns (Some t) else firstKnown ts)"

text \<open>
  \<^verbatim>\<open>NegotiateExprType\<close> in its two halves. \<open>negotiatedType\<close> is the choice of
  \<^verbatim>\<open>typ\<close>: the first known of the slot and the value's type, else the value's guess;
  \<open>Inl\<close> is the failure \<^verbatim>\<open>Too little information to infer types\<close>. \<open>applyNegotiated\<close>
  is what follows the assignment \<^verbatim>\<open>*varType = typ\<close>. \<^verbatim>\<open>Type()\<close> is called once for
  each state of the value, since it reads only.
\<close>

definition negotiatedType ::
  "'e TypedExpr \<Rightarrow> Type \<Rightarrow> 'e \<Rightarrow> ('e + Type \<times> 'e) outcome" where
  "negotiatedType X varType value =
     andThen (Type_of X value) (\<lambda>valueType.
     andThen (firstKnown [Some varType, valueType]) (\<lambda>first.
       case first of
         Some t \<Rightarrow> Returns (Inr (t, value))
       | None \<Rightarrow>
           andThen (GuessType X value) (\<lambda>((ok, guessedType), value1).
             if \<not> ok then Returns (Inl value1)
             else case guessedType of
                    None \<Rightarrow> nilDeref
                  | Some g \<Rightarrow> if \<not> Known g then Returns (Inl value1)
                              else Returns (Inr (g, value1)))))"

definition applyNegotiated ::
  "'c TypeModel \<Rightarrow> 'e TypedExpr \<Rightarrow> Type \<Rightarrow> 'e \<Rightarrow> (error option \<times> 'e) outcome" where
  "applyNegotiated M X t value =
     andThen (Type_of X value) (\<lambda>valueType.
       case valueType of
         None \<Rightarrow> nilDeref
       | Some vt \<Rightarrow>
           if \<not> Known vt then
             (if IsInterface t then
                andThen (GuessType X value) (\<lambda>((ok, guessedType), value1).
                  if ok then
                    (case guessedType of
                       None \<Rightarrow> nilDeref
                     | Some g \<Rightarrow>
                         andThen (IsAssignable M t g) (\<lambda>assignable.
                           if \<not> assignable
                           then Returns (Some (Errorf ''Types %s and %s are not assignable''
                                                 [ArgType t, ArgType g]), value1)
                           else ApplyType X g value1))
                  else ApplyType X t value1)
              else ApplyType X t value)
           else
             andThen (IsAssignable M t vt) (\<lambda>assignable.
               if \<not> assignable
               then Returns (Some (Errorf ''Types %s and %s are not assignable''
                                     [ArgType t, ArgType vt]), value)
               else ApplyType X vt value))"

text \<open>
  The result is the error, if any, with the slot and the value as the call leaves them.
\<close>

definition NegotiateExprType ::
  "'c TypeModel \<Rightarrow> 'e TypedExpr \<Rightarrow> Type option \<Rightarrow> 'e \<Rightarrow> (error option \<times> Type \<times> 'e) outcome" where
  "NegotiateExprType M X varType0 value =
     (let varType = nonilTyp varType0 in
      andThen (negotiatedType X varType value) (\<lambda>chosen.
        case chosen of
          Inl value1 \<Rightarrow>
            Returns (Some (Errorf ''Too little information to infer types'' []), varType, value1)
        | Inr (t, value1) \<Rightarrow>
            andThen (applyNegotiated M X t value1) (\<lambda>(err, value2).
              Returns (err, t, value2))))"

subsection \<open>Expressions\<close>

text \<open>
  Modelled from the spec: the objects an identifier is bound to. The declarations of the
  syntax tree are not among the sources; the negotiator asks an object for its kind and
  reads the type of a variable, which may be \<^verbatim>\<open>nil\<close>.
\<close>

datatype ObjectKind = OBJECT_VAR | OBJECT_TYPE

datatype Object = Variable "Type option" | TypeDeclObject TypeDecl

fun ObjectType :: "Object \<Rightarrow> ObjectKind" where
  "ObjectType (Variable t) = OBJECT_VAR"
| "ObjectType (TypeDeclObject d) = OBJECT_TYPE"

text \<open>
  Modelled from the spec: four kinds of expression whose methods are in the negotiator's
  source: the blank expression, the basic literal, the \<^verbatim>\<open>nil\<close> literal and the
  identifier. Their struct declarations are not among the sources; the fields are those
  the methods use: the token kind and the recorded type of a literal, the recorded type
  of \<^verbatim>\<open>nil\<close>, the name and the bound object of an identifier.
\<close>

datatype Expr =
    BlankExpr
  | BasicLit TokenType "Type option"
  | NilExpr "Type option"
  | Ident string "Object option"

fun Expr_Type :: "Expr \<Rightarrow> Type option outcome" where
  "Expr_Type BlankExpr = Returns (Some UnknownType)"
| "Expr_Type (BasicLit tok t) = Returns (Some (nonilTyp t))"
| "Expr_Type (NilExpr t) = Returns (Some (nonilTyp t))"
| "Expr_Type (Ident n obj) =
     (case obj of
        Some (Variable t) \<Rightarrow> Returns t
      | _ \<Rightarrow> Returns None)"

text \<open>
  In \<^verbatim>\<open>BasicLit.ApplyType\<close> every case of the switch falls through to the last one, so
  the type is recorded when any of the conditions holds.
\<close>

fun Expr_ApplyType :: "'c TypeModel \<Rightarrow> Type \<Rightarrow> Expr \<Rightarrow> (error option \<times> Expr) outcome" where
  "Expr_ApplyType M t BlankExpr = Returns (None, BlankExpr)"
| "Expr_ApplyType M t (BasicLit tok old) =
     (let actualType = RootType t in
      case actualType of
        SimpleType i \<Rightarrow>
          if (tok = TOKEN_STR \<and> i = SIMPLE_TYPE_STRING)
             \<or> (tok = TOKEN_INT \<and> IsTypeNumeric M actualType)
             \<or> (tok = TOKEN_RUNE \<and> IsTypeNumeric M actualType)
             \<or> (tok = TOKEN_FLOAT \<and> (IsTypeFloatKind M actualType \<or> IsTypeComplexType M actualType))
             \<or> (tok = TOKEN_IMAG \<and> IsTypeComplexType M actualType)
             \<or> ((tok = TOKEN_TRUE \<or> tok = TOKEN_FALSE) \<and> i = SIMPLE_TYPE_BOOL)
          then Returns (None, BasicLit tok (Some t))
          else Returns (Some (Errorf ''Can't use this literal for this type'' []), BasicLit tok old)
      | _ \<Rightarrow> Returns (Some (Errorf ''Can't use this literal for type %s'' [ArgType t]),
                        BasicLit tok old))"
| "Expr_ApplyType M t (NilExpr old) =
     (if Kind (RootType t) \<in> {KIND_POINTER, KIND_INTERFACE, KIND_MAP, KIND_SLICE, KIND_FUNC}
      then Returns (None, NilExpr (Some t))
      else Returns (Some (Errorf ''Type %s can't be set to nil'' [ArgType t]), NilExpr old))"
| "Expr_ApplyType M t (Ident n obj) =
     (case obj of
        None \<Rightarrow> nilDeref
      | Some (TypeDeclObject d) \<Rightarrow>
          Returns (Some (Errorf ''Identifier %s is not a variable'' [ArgName n]), Ident n obj)
      | Some (Variable None) \<Rightarrow> nilDeref
      | Some (Variable (Some vt)) \<Rightarrow>
          andThen (IsAssignable M t vt) (\<lambda>assignable.
            if \<not> assignable
            then Returns (Some (Errorf ''Identifier %s is of type %s, can't assign type %s to it''
                                  [ArgName n, ArgType vt, ArgType t]), Ident n obj)
            else Returns (None, Ident n obj)))"

fun Expr_GuessType :: "Expr \<Rightarrow> bool \<times> Type option" where
  "Expr_GuessType BlankExpr = (False, None)"
| "Expr_GuessType (BasicLit tok t) =
     (if tok = TOKEN_STR then (True, Some (SimpleType SIMPLE_TYPE_STRING))
      else if tok = TOKEN_INT then (True, Some (SimpleType SIMPLE_TYPE_INT))
      else if tok = TOKEN_FLOAT then (True, Some (SimpleType SIMPLE_TYPE_FLOAT64))
      else if tok = TOKEN_IMAG then (True, Some (SimpleType SIMPLE_TYPE_COMPLEX128))
      else if tok = TOKEN_TRUE \<or> tok = TOKEN_FALSE then (True, Some (SimpleType SIMPLE_TYPE_BOOL))
      else if tok = TOKEN_RUNE then (True, Some (SimpleType SIMPLE_TYPE_RUNE))
      else (False, None))"
| "Expr_GuessType (NilExpr t) = (False, Some UnknownType)"
| "Expr_GuessType (Ident n obj) = (False, None)"

definition exprs :: "'c TypeModel \<Rightarrow> Expr TypedExpr" where
  "exprs M = \<lparr> Type_of = Expr_Type,
               ApplyType = Expr_ApplyType M,
               GuessType = (\<lambda>e. Returns (Expr_GuessType e, e)) \<rparr>"

subsection \<open>The send statement\<close>

record 'e SendStmt =
  Lhs :: 'e
  Rhs :: 'e

definition SendStmt_NegotiateTypes ::
  "'c TypeModel \<Rightarrow> 'e TypedExpr \<Rightarrow> 'e SendStmt \<Rightarrow> (error option \<times> 'e SendStmt) outcome" where
  "SendStmt_NegotiateTypes M X ls =
     andThen (NegotiateExprType M X (Some UnknownType) (Lhs ls)) (\<lambda>(err1, ltyp, lhs1).
       if err1 \<noteq> None then Returns (err1, ls\<lparr> Lhs := lhs1 \<rparr>)
       else
         andThen (NegotiateExprType M X (Some UnknownType) (Rhs ls)) (\<lambda>(err2, rtyp, rhs1).
           let ls' = ls\<lparr> Lhs := lhs1, Rhs := rhs1 \<rparr> in
           if err2 \<noteq> None then Returns (err2, ls')
           else
             (case RootType ltyp of
                ChanType elem dir \<Rightarrow>
                  if dir = CHAN_DIR_RECEIVE
                  then Returns (Some (Errorf ''Channel is receive-only'' []), ls')
                  else
                    andThen (IsAssignable M elem rtyp) (\<lambda>assignable.
                      if \<not> assignable
                      then Returns (Some (Errorf ''Send value has to be assignable to channel's base type'' []), ls')
                      else Returns (None, ls'))
              | _ \<Rightarrow> Returns (Some (Errorf ''Not a chan used for sending'' []), ls'))))"


subsection \<open>Properties of the negotiator\<close>

lemma IsInterface_Known: "IsInterface t \<Longrightarrow> Known t"
  by (cases t) (auto simp: IsInterface_def Known_def RootType_def)

lemma IsAssignable_total: "\<exists>b. IsAssignable M to what = Returns b"
proof (cases "IsInterface to")
  case True
  then obtain ms where "RootType to = IfaceType ms"
    by (cases "RootType to") (auto simp: IsInterface_def)
  with True show ?thesis
    by (simp add: IsAssignable_def Implements_def Let_def split: prod.splits)
next
  case False
  then show ?thesis by (simp add: IsAssignable_def)
qed

lemma AreComparable_total: "\<exists>b. AreComparable M t1 t2 = Returns b"
  using IsAssignable_total [of M t1 t2] IsAssignable_total [of M t2 t1]
  by (auto simp: AreComparable_def)

lemma firstKnown_pair:
  "firstKnown [Some s, x] =
     (if Known s then Returns (Some s)
      else case x of
             None \<Rightarrow> nilDeref
           | Some vt \<Rightarrow> if Known vt then Returns (Some vt) else Returns None)"
  by (cases x) simp_all









text \<open>A named interface type with one method, and no method declared on the name.\<close>

definition example_Reader :: Type where
  "example_Reader =
     CustomType (TypeDecl ''Reader''
       (IfaceType [(''Read'', FuncDecl ''Read'' (FuncType [] [SimpleType SIMPLE_TYPE_INT]) False)])
       [])"




text \<open>
  Claim C2. The slot holds an interface type, the value's type is not known and its guess
  succeeds with \<open>g\<close>. If \<open>g\<close> is not assignable to the slot the call fails; otherwise
  \<open>g\<close>, not the interface type, is applied to the value, and the slot keeps the interface
  type. In particular an integer literal negotiated against the empty interface ends with
  the type \<^verbatim>\<open>int\<close> and the call succeeds, \<^verbatim>\<open>int\<close> being numeric.
\<close>

theorem NegotiateExprType_interface:
  "(IsInterface slot \<and> Type_of X v = Returns (Some vt) \<and> \<not> Known vt
      \<and> GuessType X v = Returns ((True, Some g), v1) \<longrightarrow>
      (IsAssignable M slot g = Returns False \<longrightarrow>
         NegotiateExprType M X (Some slot) v =
           Returns (Some (Errorf ''Types %s and %s are not assignable'' [ArgType slot, ArgType g]),
                    slot, v1))
      \<and> (IsAssignable M slot g = Returns True \<longrightarrow>
           NegotiateExprType M X (Some slot) v =
             andThen (ApplyType X g v1) (\<lambda>(err, v2). Returns (err, slot, v2))))
   \<and> (IsTypeNumeric M (SimpleType SIMPLE_TYPE_INT) \<longrightarrow>
        NegotiateExprType M (exprs M) (Some (IfaceType [])) (BasicLit TOKEN_INT None) =
          Returns (None, IfaceType [], BasicLit TOKEN_INT (Some (SimpleType SIMPLE_TYPE_INT))))"
proof (intro conjI impI)
  assume a: "IsInterface slot \<and> Type_of X v = Returns (Some vt) \<and> \<not> Known vt
      \<and> GuessType X v = Returns ((True, Some g), v1)"
  then have chosen: "negotiatedType X (nonilTyp (Some slot)) v = Returns (Inr (slot, v))"
    by (simp add: negotiatedType_def nonilTyp_def firstKnown_pair IsInterface_Known
             del: firstKnown.simps)
  { assume "IsAssignable M slot g = Returns False"
    with a chosen show "NegotiateExprType M X (Some slot) v =
           Returns (Some (Errorf ''Types %s and %s are not assignable'' [ArgType slot, ArgType g]),
                    slot, v1)"
      by (simp add: NegotiateExprType_def Let_def applyNegotiated_def) }
  { assume "IsAssignable M slot g = Returns True"
    with a chosen show "NegotiateExprType M X (Some slot) v =
             andThen (ApplyType X g v1) (\<lambda>(err, v2). Returns (err, slot, v2))"
      by (simp add: NegotiateExprType_def Let_def applyNegotiated_def) }
next
  assume "IsTypeNumeric M (SimpleType SIMPLE_TYPE_INT)"
  then show "NegotiateExprType M (exprs M) (Some (IfaceType [])) (BasicLit TOKEN_INT None) =
          Returns (None, IfaceType [], BasicLit TOKEN_INT (Some (SimpleType SIMPLE_TYPE_INT)))"
    by (simp add: NegotiateExprType_def Let_def applyNegotiated_def negotiatedType_def
          nonilTyp_def exprs_def Known_def IsInterface_def RootType_def IsAssignable_def
          Implements_def)
qed

theorem NegotiateExprType_interface_witness:
  "IsInterface (IfaceType [])
   \<and> Type_of (exprs structural_types) (BasicLit TOKEN_INT None) = Returns (Some UnknownType)
   \<and> GuessType (exprs structural_types) (BasicLit TOKEN_INT None)
       = Returns ((True, Some (SimpleType SIMPLE_TYPE_INT)), BasicLit TOKEN_INT None)
   \<and> IsAssignable structural_types (IfaceType []) (SimpleType SIMPLE_TYPE_INT) = Returns True
   \<and> IsTypeNumeric structural_types (SimpleType SIMPLE_TYPE_INT)
   \<and> NegotiateExprType structural_types (exprs structural_types) (Some (IfaceType []))
         (BasicLit TOKEN_INT None)
       = Returns (None, IfaceType [], BasicLit TOKEN_INT (Some (SimpleType SIMPLE_TYPE_INT)))"
proof -
  have 1: "IsInterface (IfaceType [])"
    by (simp add: IsInterface_def RootType_def)
  have 2: "Type_of (exprs structural_types) (BasicLit TOKEN_INT None) = Returns (Some UnknownType)"
    by (simp add: exprs_def nonilTyp_def)
  have 3: "\<not> Known UnknownType"
    by (simp add: Known_def)
  have 4: "GuessType (exprs structural_types) (BasicLit TOKEN_INT None)
             = Returns ((True, Some (SimpleType SIMPLE_TYPE_INT)), BasicLit TOKEN_INT None)"
    by (simp add: exprs_def)
  have 5: "IsAssignable structural_types (IfaceType []) (SimpleType SIMPLE_TYPE_INT) = Returns True"
    by code_simp
  have 6: "IsTypeNumeric structural_types (SimpleType SIMPLE_TYPE_INT)"
    by (simp add: structural_types_def RootType_def)
  have 7: "ApplyType (exprs structural_types) (SimpleType SIMPLE_TYPE_INT) (BasicLit TOKEN_INT None)
             = Returns (None, BasicLit TOKEN_INT (Some (SimpleType SIMPLE_TYPE_INT)))"
    using 6 by (simp add: exprs_def RootType_def)
  from NegotiateExprType_interface [of "IfaceType []" "exprs structural_types"
         "BasicLit TOKEN_INT None" UnknownType "SimpleType SIMPLE_TYPE_INT"
         "BasicLit TOKEN_INT None" structural_types] 1 2 3 4 5 6 7
  show ?thesis by simp
qed

text \<open>Assignability is reflexive on every type that is not an interface type.\<close>

lemma IsAssignable_refl: "\<not> IsInterface t \<Longrightarrow> IsAssignable M t t = Returns True"
  by (simp add: IsAssignable_def)

text \<open>
  Claim C8 says that every known type is assignable to itself. For a named interface
  type with a method this fails in the code: \<^verbatim>\<open>Implements\<close> takes the methods of a named
  value from the declaration of the name, which has none, and does not find the method
  that the interface requires.
\<close>

theorem IsAssignable_named_interface_irreflexive:
  "Known example_Reader
   \<and> IsAssignable structural_types example_Reader example_Reader = Returns False"
  by code_simp

text \<open>
  Claim C10. The value's type \<open>vt\<close> is known and is not assignable to the negotiated
  type \<open>t\<close>, the first known of the slot and \<open>vt\<close>. Then the call returns the error
  \<^verbatim>\<open>Types %s and %s are not assignable\<close>, and the slot it leaves holds \<open>t\<close>: it is known,
  and it is not what the slot held before whenever that was \<^verbatim>\<open>nil\<close> or unknown.
\<close>

theorem NegotiateExprType_not_assignable_slot:
  assumes "Type_of X v = Returns (Some vt)" and "Known vt"
    and "t = (if Known (nonilTyp slot) then nonilTyp slot else vt)"
    and "IsAssignable M t vt = Returns False"
  shows "NegotiateExprType M X slot v =
           Returns (Some (Errorf ''Types %s and %s are not assignable'' [ArgType t, ArgType vt]), t, v)
         \<and> Known t \<and> (\<not> Known (nonilTyp slot) \<longrightarrow> t \<noteq> nonilTyp slot)"
proof -
  have chosen: "negotiatedType X (nonilTyp slot) v = Returns (Inr (t, v))"
    using assms(1,2,3)
    by (simp add: negotiatedType_def firstKnown_pair del: firstKnown.simps)
  have "NegotiateExprType M X slot v =
           Returns (Some (Errorf ''Types %s and %s are not assignable'' [ArgType t, ArgType vt]), t, v)"
    using chosen assms(1,2,4)
    by (simp add: NegotiateExprType_def Let_def applyNegotiated_def)
  moreover have "Known t" using assms(2,3) by simp
  ultimately show ?thesis by auto
qed

theorem NegotiateExprType_not_assignable_slot_witness:
  "NegotiateExprType structural_types (exprs structural_types) None
       (Ident ''r'' (Some (Variable (Some example_Reader))))
     = Returns (Some (Errorf ''Types %s and %s are not assignable''
                        [ArgType example_Reader, ArgType example_Reader]),
                example_Reader, Ident ''r'' (Some (Variable (Some example_Reader))))
   \<and> Known example_Reader \<and> example_Reader \<noteq> nonilTyp None"
proof -
  have 1: "Type_of (exprs structural_types) (Ident ''r'' (Some (Variable (Some example_Reader))))
             = Returns (Some example_Reader)"
    by (simp add: exprs_def)
  have 2: "Known example_Reader" by (simp add: Known_def example_Reader_def)
  have 3: "example_Reader = (if Known (nonilTyp None) then nonilTyp None else example_Reader)"
    by (simp add: Known_def nonilTyp_def)
  have 4: "IsAssignable structural_types example_Reader example_Reader = Returns False"
    by code_simp
  from NegotiateExprType_not_assignable_slot [OF 1 2 3 4] show ?thesis
    by (simp add: Known_def nonilTyp_def)
qed

text \<open>A named type whose underlying type is \<^verbatim>\<open>int\<close>.\<close>

definition example_MyInt :: Type where
  "example_MyInt = CustomType (TypeDecl ''MyInt'' (SimpleType SIMPLE_TYPE_INT) [])"

text \<open>
  Claim C6 says that \<^verbatim>\<open>AreOrdered\<close> returns a boolean on every pair of known types and
  never panics, and that it returns false on two comparable types that are not
  \<^verbatim>\<open>SIMPLE\<close>. On two identical slice types, and on two values of one named type over
  \<^verbatim>\<open>int\<close>, the types are comparable and the code reaches \<^verbatim>\<open>panic("todo")\<close> instead of
  returning.
\<close>

theorem AreOrdered_slices_counterexample:
  "AreComparable structural_types (SliceType (SimpleType SIMPLE_TYPE_INT))
       (SliceType (SimpleType SIMPLE_TYPE_INT)) = Returns True
   \<and> AreOrdered structural_types (SliceType (SimpleType SIMPLE_TYPE_INT))
       (SliceType (SimpleType SIMPLE_TYPE_INT)) = Panics ''todo''
   \<and> AreComparable structural_types example_MyInt example_MyInt = Returns True
   \<and> AreOrdered structural_types example_MyInt example_MyInt = Panics ''todo''"
  by code_simp

text \<open>
  Where \<^verbatim>\<open>AreOrdered\<close> returns: on two \<^verbatim>\<open>SIMPLE\<close> types the result is true iff they
  are comparable and have the same id, that id being \<^verbatim>\<open>int\<close> or \<^verbatim>\<open>string\<close>; on any
  other pair it is false when the two are not comparable, and the call panics when they
  are.
\<close>

lemma AreOrdered_cases:
  "(Kind a = KIND_SIMPLE \<and> Kind b = KIND_SIMPLE \<longrightarrow>
      AreOrdered M a b =
        Returns (AreComparable M a b = Returns True
                 \<and> (\<exists>i. a = SimpleType i \<and> b = SimpleType i
                          \<and> (i = SIMPLE_TYPE_INT \<or> i = SIMPLE_TYPE_STRING))))
   \<and> (\<not> (Kind a = KIND_SIMPLE \<and> Kind b = KIND_SIMPLE) \<longrightarrow>
        AreOrdered M a b =
          (if AreComparable M a b = Returns True then Panics ''todo'' else Returns False))"
proof -
  obtain c where c: "AreComparable M a b = Returns c"
    using AreComparable_total by blast
  show ?thesis
  proof (cases "Kind a = KIND_SIMPLE \<and> Kind b = KIND_SIMPLE")
    case True
    then obtain i j where "a = SimpleType i" "b = SimpleType j"
      by (cases a; cases b) auto
    with c show ?thesis by (auto simp: AreOrdered_def)
  next
    case False
    with c show ?thesis
      by (cases a; cases b) (auto simp: AreOrdered_def)
  qed
qed

lemma AreOrdered_cases_examples:
  "AreOrdered structural_types (SimpleType SIMPLE_TYPE_INT) (SimpleType SIMPLE_TYPE_INT) = Returns True
   \<and> AreOrdered structural_types (SimpleType SIMPLE_TYPE_BOOL) (SimpleType SIMPLE_TYPE_BOOL) = Returns False
   \<and> AreOrdered structural_types (SimpleType SIMPLE_TYPE_INT) (SliceType (SimpleType SIMPLE_TYPE_INT))
       = Returns False"
proof -
  have c1: "AreComparable structural_types (SimpleType SIMPLE_TYPE_INT) (SimpleType SIMPLE_TYPE_INT)
              = Returns True"
    by code_simp
  have c2: "AreComparable structural_types (SimpleType SIMPLE_TYPE_BOOL) (SimpleType SIMPLE_TYPE_BOOL)
              = Returns True"
    by code_simp
  have c3: "AreComparable structural_types (SimpleType SIMPLE_TYPE_INT)
              (SliceType (SimpleType SIMPLE_TYPE_INT)) = Returns False"
    by code_simp
  from AreOrdered_cases [of "SimpleType SIMPLE_TYPE_INT" "SimpleType SIMPLE_TYPE_INT" structural_types]
       AreOrdered_cases [of "SimpleType SIMPLE_TYPE_BOOL" "SimpleType SIMPLE_TYPE_BOOL" structural_types]
       AreOrdered_cases [of "SimpleType SIMPLE_TYPE_INT" "SliceType (SimpleType SIMPLE_TYPE_INT)"
                            structural_types]
       c1 c2 c3
  show ?thesis by simp
qed

text \<open>Two identifiers bound to channel variables, receive-only and send-only.\<close>

definition example_recv_chan :: Expr where
  "example_recv_chan =
     Ident ''ch'' (Some (Variable (Some (ChanType (SimpleType SIMPLE_TYPE_INT) CHAN_DIR_RECEIVE))))"

definition example_send_chan :: Expr where
  "example_send_chan =
     Ident ''ch'' (Some (Variable (Some (ChanType (SimpleType SIMPLE_TYPE_INT) CHAN_DIR_SEND))))"

text \<open>
  Claim C7, as stated, fails: sending \<^verbatim>\<open>nil\<close> on a receive-only channel fails with
  \<^verbatim>\<open>Too little information to infer types\<close>, the error of negotiating the right side,
  and not with \<^verbatim>\<open>Channel is receive-only\<close>.
\<close>

theorem SendStmt_receive_only_counterexample:
  "SendStmt_NegotiateTypes structural_types (exprs structural_types)
       \<lparr> Lhs = example_recv_chan, Rhs = NilExpr None \<rparr>
     = Returns (Some (Errorf ''Too little information to infer types'' []),
                \<lparr> Lhs = example_recv_chan, Rhs = NilExpr None \<rparr>)
   \<and> Errorf ''Too little information to infer types'' [] \<noteq> Errorf ''Channel is receive-only'' []"
  by code_simp

text \<open>
  Claim C7, amended. \<^verbatim>\<open>SendStmt.NegotiateTypes\<close> negotiates the left side, then the
  right side, each against an unknown slot, and returns the first error of the two. When
  both succeed, with slot types \<open>ltyp\<close> and \<open>rtyp\<close>: it fails with
  \<^verbatim>\<open>Not a chan used for sending\<close> unless the root of \<open>ltyp\<close> is a channel type, with
  \<^verbatim>\<open>Channel is receive-only\<close> if the channel's direction is receive-only, and with
  \<^verbatim>\<open>Send value has to be assignable to channel's base type\<close> if \<open>rtyp\<close> is not assignable
  to the element type; otherwise it succeeds.
\<close>

theorem SendStmt_NegotiateTypes_cases:
  "(NegotiateExprType M X (Some UnknownType) (Lhs ls) = Returns (Some e, ltyp, lhs') \<longrightarrow>
      SendStmt_NegotiateTypes M X ls = Returns (Some e, ls\<lparr> Lhs := lhs' \<rparr>))
   \<and> (NegotiateExprType M X (Some UnknownType) (Lhs ls) = Returns (None, ltyp, lhs')
       \<and> NegotiateExprType M X (Some UnknownType) (Rhs ls) = Returns (Some e, rtyp, rhs') \<longrightarrow>
        SendStmt_NegotiateTypes M X ls = Returns (Some e, ls\<lparr> Lhs := lhs', Rhs := rhs' \<rparr>))
   \<and> (NegotiateExprType M X (Some UnknownType) (Lhs ls) = Returns (None, ltyp, lhs')
       \<and> NegotiateExprType M X (Some UnknownType) (Rhs ls) = Returns (None, rtyp, rhs') \<longrightarrow>
        SendStmt_NegotiateTypes M X ls =
          Returns
            ((case RootType ltyp of
                ChanType elem dir \<Rightarrow>
                  if dir = CHAN_DIR_RECEIVE then Some (Errorf ''Channel is receive-only'' [])
                  else if IsAssignable M elem rtyp = Returns True then None
                  else Some (Errorf ''Send value has to be assignable to channel's base type'' [])
              | _ \<Rightarrow> Some (Errorf ''Not a chan used for sending'' [])),
             ls\<lparr> Lhs := lhs', Rhs := rhs' \<rparr>))"
proof (intro conjI impI)
  assume "NegotiateExprType M X (Some UnknownType) (Lhs ls) = Returns (Some e, ltyp, lhs')"
  then show "SendStmt_NegotiateTypes M X ls = Returns (Some e, ls\<lparr> Lhs := lhs' \<rparr>)"
    by (simp add: SendStmt_NegotiateTypes_def)
next
  assume "NegotiateExprType M X (Some UnknownType) (Lhs ls) = Returns (None, ltyp, lhs')
       \<and> NegotiateExprType M X (Some UnknownType) (Rhs ls) = Returns (Some e, rtyp, rhs')"
  then show "SendStmt_NegotiateTypes M X ls = Returns (Some e, ls\<lparr> Lhs := lhs', Rhs := rhs' \<rparr>)"
    by (simp add: SendStmt_NegotiateTypes_def)
next
  assume a: "NegotiateExprType M X (Some UnknownType) (Lhs ls) = Returns (None, ltyp, lhs')
       \<and> NegotiateExprType M X (Some UnknownType) (Rhs ls) = Returns (None, rtyp, rhs')"
  show "SendStmt_NegotiateTypes M X ls =
          Returns
            ((case RootType ltyp of
                ChanType elem dir \<Rightarrow>
                  if dir = CHAN_DIR_RECEIVE then Some (Errorf ''Channel is receive-only'' [])
                  else if IsAssignable M elem rtyp = Returns True then None
                  else Some (Errorf ''Send value has to be assignable to channel's base type'' [])
              | _ \<Rightarrow> Some (Errorf ''Not a chan used for sending'' [])),
             ls\<lparr> Lhs := lhs', Rhs := rhs' \<rparr>)"
  proof (cases "RootType ltyp")
    case (ChanType elem dir)
    obtain b where "IsAssignable M elem rtyp = Returns b"
      using IsAssignable_total by blast
    with a ChanType show ?thesis
      by (simp add: SendStmt_NegotiateTypes_def)
  qed (use a in \<open>simp_all add: SendStmt_NegotiateTypes_def\<close>)
qed

theorem SendStmt_NegotiateTypes_cases_witness:
  "SendStmt_NegotiateTypes structural_types (exprs structural_types)
       \<lparr> Lhs = example_send_chan, Rhs = BasicLit TOKEN_INT None \<rparr>
     = Returns (None, \<lparr> Lhs = example_send_chan,
                        Rhs = BasicLit TOKEN_INT (Some (SimpleType SIMPLE_TYPE_INT)) \<rparr>)
   \<and> SendStmt_NegotiateTypes structural_types (exprs structural_types)
       \<lparr> Lhs = example_recv_chan, Rhs = BasicLit TOKEN_INT None \<rparr>
     = Returns (Some (Errorf ''Channel is receive-only'' []),
                \<lparr> Lhs = example_recv_chan,
                  Rhs = BasicLit TOKEN_INT (Some (SimpleType SIMPLE_TYPE_INT)) \<rparr>)"
proof -
  have l1: "NegotiateExprType structural_types (exprs structural_types) (Some UnknownType)
              example_send_chan
            = Returns (None, ChanType (SimpleType SIMPLE_TYPE_INT) CHAN_DIR_SEND, example_send_chan)"
    by code_simp
  have l2: "NegotiateExprType structural_types (exprs structural_types) (Some UnknownType)
              example_recv_chan
            = Returns (None, ChanType (SimpleType SIMPLE_TYPE_INT) CHAN_DIR_RECEIVE, example_recv_chan)"
    by code_simp
  have r: "NegotiateExprType structural_types (exprs structural_types) (Some UnknownType)
              (BasicLit TOKEN_INT None)
            = Returns (None, SimpleType SIMPLE_TYPE_INT,
                       BasicLit TOKEN_INT (Some (SimpleType SIMPLE_TYPE_INT)))"
    by code_simp
  have asg: "IsAssignable structural_types (SimpleType SIMPLE_TYPE_INT) (SimpleType SIMPLE_TYPE_INT)
               = Returns True"
    by code_simp
  from SendStmt_NegotiateTypes_cases
         [of structural_types "exprs structural_types"
             "\<lparr> Lhs = example_send_chan, Rhs = BasicLit TOKEN_INT None \<rparr>" _
             "ChanType (SimpleType SIMPLE_TYPE_INT) CHAN_DIR_SEND" example_send_chan
             "SimpleType SIMPLE_TYPE_INT" "BasicLit TOKEN_INT (Some (SimpleType SIMPLE_TYPE_INT))"]
       SendStmt_NegotiateTypes_cases
         [of structural_types "exprs structural_types"
             "\<lparr> Lhs = example_recv_chan, Rhs = BasicLit TOKEN_INT None \<rparr>" _
             "ChanType (SimpleType SIMPLE_TYPE_INT) CHAN_DIR_RECEIVE" example_recv_chan
             "SimpleType SIMPLE_TYPE_INT" "BasicLit TOKEN_INT (Some (SimpleType SIMPLE_TYPE_INT))"]
       l1 l2 r asg
  show ?thesis by (simp add: RootType_def)
qed


end
